theory Spec2Isabelle
  imports Complex_Main "HOL-Library.Sublist" "HOL-Library.AList" "HOL-Library.Multiset"
begin

section \<open>Strings of the debug console (src/ui/src/debug-console.ts)\<close>

text \<open>
  JavaScript strings are modelled as \<^typ>\<open>string\<close>: a character stands for the code
  unit of the same number, so the model covers the strings whose code units are below 256.
  The double quote is written \<open>CHR 0x22\<close>.
\<close>

definition dquote :: char where
  "dquote = CHR 0x22"

text \<open>
  \<^verbatim>\<open>s.replace(/c/g, r)\<close> with a one-character pattern: every occurrence of the
  character is replaced by the replacement text, everything else is kept.
\<close>

definition replaceAll :: "char \<Rightarrow> string \<Rightarrow> string \<Rightarrow> string" where
  "replaceAll c r s = concat (map (\<lambda>x. if x = c then r else [x]) s)"

text \<open>
  \<^verbatim>\<open>function escapeHtml(s) { return s.replace(/&/g, '&amp;').replace(/</g, '&lt;')
     .replace(/>/g, '&gt;').replace(/"/g, '&quot;'); }\<close>
  The four passes run in the order of the source.
\<close>

definition escapeHtml :: "string \<Rightarrow> string" where
  "escapeHtml s =
     replaceAll dquote ''&quot;''
       (replaceAll (CHR ''>'') ''&gt;''
         (replaceAll (CHR ''<'') ''&lt;''
           (replaceAll (CHR ''&'') ''&amp;'' s)))"

text \<open>
  \<^verbatim>\<open>Array.prototype.join\<close>: the elements separated by the separator.
\<close>

fun join :: "string \<Rightarrow> string list \<Rightarrow> string" where
  "join sep [] = []"
| "join sep [x] = x"
| "join sep (x # y # ys) = x @ sep @ join sep (y # ys)"

definition newline :: char where
  "newline = CHR 0x0A"

text \<open>
  \<^verbatim>\<open>String.prototype.trim\<close> removes white space and line terminators at both ends.
  Below 256 these are tab, line feed, vertical tab, form feed, carriage return, space and
  the no-break space.
\<close>

definition isWhiteSpace :: "char \<Rightarrow> bool" where
  "isWhiteSpace c = (c = CHR 0x09 \<or> c = CHR 0x0A \<or> c = CHR 0x0B \<or> c = CHR 0x0C
     \<or> c = CHR 0x0D \<or> c = CHR 0x20 \<or> c = CHR 0xA0)"

definition trim :: "string \<Rightarrow> string" where
  "trim s = rev (dropWhile isWhiteSpace (rev (dropWhile isWhiteSpace s)))"

text \<open>
  Numbers of the console are integers (event kinds, Unix timestamps, counters). A number
  interpolated into a template literal is printed in decimal, which is what JavaScript
  prints for every integer below \<open>10^21\<close> in absolute value.
\<close>

fun showNat :: "nat \<Rightarrow> string" where
  "showNat n =
     (if n < 10 then [''0123456789'' ! n]
      else showNat (n div 10) @ [''0123456789'' ! (n mod 10)])"

declare showNat.simps [simp del]

definition showInt :: "int \<Rightarrow> string" where
  "showInt i = (if i < 0 then CHR ''-'' # showNat (nat (- i)) else showNat (nat i))"

text \<open>
  A thrown JavaScript \<^verbatim>\<open>Error\<close>: its name and its message. \<^verbatim>\<open>`${err}`\<close> prints
  it as \<^verbatim>\<open>Error.prototype.toString\<close> does.
\<close>

datatype js_error = JsError string string

fun errorText :: "js_error \<Rightarrow> string" where
  "errorText (JsError name msg) =
     (if name = [] then msg else if msg = [] then name else name @ '': '' @ msg)"

text \<open>
  A call that either returns, or throws after the side effects it had: both carry the
  state it leaves behind.
\<close>

datatype 'a completion = Returned 'a | Thrown js_error 'a

fun final :: "'a completion \<Rightarrow> 'a" where
  "final (Returned s) = s"
| "final (Thrown e s) = s"

fun thrown :: "'a completion \<Rightarrow> js_error option" where
  "thrown (Returned s) = None"
| "thrown (Thrown e s) = Some e"

section \<open>Events (nostr-tools \<^verbatim>\<open>Event\<close>)\<close>

text \<open>
  The \<^verbatim>\<open>Event\<close> type of nostr-tools as the TypeScript sources use it. The field
  \<^verbatim>\<open>id\<close> is named \<open>id_hex\<close> here, \<open>id\<close> being the identity function of HOL.
\<close>

record Event =
  id_hex :: string
  pubkey :: string
  created_at :: int
  kind :: int
  tags :: "string list list"
  content :: string
  sig :: string

subsection \<open>Rendering an event\<close>

definition SNOW_TAG_PREFIXES :: "string list" where
  "SNOW_TAG_PREFIXES =
     [''snow:tier'', ''snow:model'', ''snow:confidence'', ''snow:source'', ''snow:version'',
      ''snow:supersedes'']"

text \<open>\<^verbatim>\<open>const key = tag[0] ?? ''\<close>\<close>

fun tagKey :: "string list \<Rightarrow> string" where
  "tagKey [] = []"
| "tagKey (k # vs) = k"

text \<open>
  \<^verbatim>\<open>SNOW_TAG_PREFIXES.some((p) => key.startsWith(p)) || key === 'd'\<close>
\<close>

definition isSnow :: "string list \<Rightarrow> bool" where
  "isSnow tag = (list_ex (\<lambda>p. prefix p (tagKey tag)) SNOW_TAG_PREFIXES \<or> tagKey tag = ''d'')"

text \<open>The body of the \<^verbatim>\<open>map\<close> callback of \<^verbatim>\<open>renderTags\<close>.\<close>

definition renderTag :: "string list \<Rightarrow> string" where
  "renderTag tag =
     (let cls = (if isSnow tag then '' class='' @ [dquote] @ ''snow-tag'' @ [dquote] else []);
          escaped = join '', '' (map escapeHtml tag)
      in ''<span'' @ cls @ ''>['' @ escaped @ '']</span>'')"

definition renderTags :: "string list list \<Rightarrow> string" where
  "renderTags ts = join [newline] (map renderTag ts)"

text \<open>
  \<^verbatim>\<open>formatEvent\<close>. \<^verbatim>\<open>new Date(ms).toISOString()\<close> is a parameter: it returns the
  ISO text of a time value in milliseconds, or throws a \<^verbatim>\<open>RangeError\<close> outside the range
  of \<^verbatim>\<open>Date\<close>. The template's expressions before it cannot throw, so the error is
  all that is left of the call when it does.
\<close>

definition formatEvent :: "(int \<Rightarrow> js_error + string) \<Rightarrow> Event \<Rightarrow> js_error + string" where
  "formatEvent toISOString event =
     (case toISOString (created_at event * 1000) of
        Inl err \<Rightarrow> Inl err
      | Inr isoText \<Rightarrow>
          Inr (''<div>'' @ [newline]
            @ ''<strong>id:</strong> '' @ escapeHtml (id_hex event) @ [newline]
            @ ''<strong>kind:</strong> '' @ showInt (kind event) @ [newline]
            @ ''<strong>pubkey:</strong> '' @ escapeHtml (pubkey event) @ [newline]
            @ ''<strong>created_at:</strong> '' @ showInt (created_at event)
                @ '' ('' @ isoText @ '')'' @ [newline]
            @ ''<strong>tags:</strong>'' @ [newline]
            @ renderTags (tags event) @ [newline]
            @ ''<strong>content:</strong>'' @ [newline]
            @ escapeHtml (content event) @ [newline]
            @ ''</div>''))"

section \<open>Relay connection management (src/ui/src/relay.ts)\<close>

datatype RelayStatus = disconnected | connecting | connected

text \<open>
  \<^verbatim>\<open>Relay\<close> and \<^verbatim>\<open>Sub\<close> objects of nostr-tools are known by their identity: the
  n-th object constructed has the number n. A subscription filter carries the two keys the
  module uses, \<^verbatim>\<open>kinds\<close> and \<^verbatim>\<open>'#d'\<close>.
\<close>

type_synonym Relay = nat
type_synonym Sub = nat

record Filter =
  kinds :: "int list"
  tag_d :: "string list"

text \<open>
  \<^verbatim>\<open>interface RelayState\<close>. The \<^verbatim>\<open>Map<string, Sub>\<close> is a list of entries in
  insertion order with distinct keys: \<^verbatim>\<open>set\<close> is \<^const>\<open>AList.update\<close> (an
  existing key keeps its place, a new one goes last), \<^verbatim>\<open>delete\<close> is
  \<^const>\<open>AList.delete\<close>, \<^verbatim>\<open>get\<close> is \<^const>\<open>map_of\<close>.
\<close>

record RelayState =
  url :: string
  relay :: "Relay option"
  status :: RelayStatus
  subscriptions :: "(string \<times> Sub) list"
  eventCount :: nat

text \<open>
  What the module does to the objects of nostr-tools, which are not part of
  \<^verbatim>\<open>RelayState\<close>: the \<^verbatim>\<open>Relay\<close> objects constructed, those whose
  \<^verbatim>\<open>connect()\<close> is awaited, the connections that are established and not closed, and
  the calls of \<^verbatim>\<open>relay.close()\<close>, \<^verbatim>\<open>relay.subscribe(filters, handlers)\<close> and
  \<^verbatim>\<open>sub.close()\<close> in the order they were made.
\<close>

record Net =
  relaysCreated :: nat
  pending :: "Relay list"
  openConns :: "Relay list"
  relayCloses :: "Relay list"
  subsCreated :: nat
  subRequests :: "(Relay \<times> Sub \<times> Filter list) list"
  subCloses :: "Sub list"

text \<open>
  The module's state, the objects around it, and the state \<open>'u\<close> that the registered
  listeners work on (for the debug console, its DOM elements).
\<close>

record 'u System =
  state :: RelayState
  net :: Net
  ui :: "'u"

text \<open>
  \<^verbatim>\<open>statusListeners\<close> and \<^verbatim>\<open>eventListeners\<close>, filled by \<^verbatim>\<open>onStatusChange\<close>
  and \<^verbatim>\<open>onEvent\<close>. A listener may read \<^verbatim>\<open>getState()\<close>, so it is given the state
  of the module at the time it is called.
\<close>

record 'u Listeners =
  statusListeners :: "(RelayState \<Rightarrow> RelayStatus \<Rightarrow> 'u \<Rightarrow> 'u) list"
  eventListeners :: "(RelayState \<Rightarrow> Event \<Rightarrow> 'u \<Rightarrow> 'u) list"

definition initialState :: RelayState where
  "initialState =
     \<lparr>url = [], relay = None, status = disconnected, subscriptions = [], eventCount = 0\<rparr>"

definition initialNet :: Net where
  "initialNet =
     \<lparr>relaysCreated = 0, pending = [], openConns = [], relayCloses = [], subsCreated = 0,
      subRequests = [], subCloses = []\<rparr>"

definition initialSystem :: "'u \<Rightarrow> 'u System" where
  "initialSystem u = \<lparr>state = initialState, net = initialNet, ui = u\<rparr>"

text \<open>
  \<^verbatim>\<open>function setStatus(s) { state.status = s; for (const fn of statusListeners) fn(s); }\<close>
\<close>

definition setStatus :: "'u Listeners \<Rightarrow> RelayStatus \<Rightarrow> 'u System \<Rightarrow> 'u System" where
  "setStatus L s sys =
     (let st = (state sys)\<lparr>status := s\<rparr>
      in sys\<lparr>state := st, ui := fold (\<lambda>fn. fn st s) (statusListeners L) (ui sys)\<rparr>)"

text \<open>\<^verbatim>\<open>relay.close()\<close>: the connection of this object, if it had one, is gone.\<close>

definition closeRelay :: "Relay \<Rightarrow> Net \<Rightarrow> Net" where
  "closeRelay r n = n\<lparr>openConns := removeAll r (openConns n), relayCloses := relayCloses n @ [r]\<rparr>"

text \<open>
  \<^verbatim>\<open>connect(url)\<close> is an \<^verbatim>\<open>async\<close> function: it runs up to
  \<^verbatim>\<open>await relay.connect()\<close>, and its continuation runs when the promise is settled;
  other calls of the module can run in between. \<open>connect_begin\<close> is the part before the
  \<^verbatim>\<open>await\<close> (it returns the \<^verbatim>\<open>Relay\<close> object the continuation holds),
  \<open>connect_resolved\<close> the continuation after the promise is fulfilled, when the connection
  is established, and \<open>connect_rejected\<close> the \<^verbatim>\<open>catch\<close> block.
\<close>

definition connect_begin :: "'u Listeners \<Rightarrow> string \<Rightarrow> 'u System \<Rightarrow> 'u System \<times> Relay" where
  "connect_begin L u sys =
     (let sys1 = (case relay (state sys) of
                    None \<Rightarrow> sys
                  | Some r \<Rightarrow> sys\<lparr>net := closeRelay r (net sys)\<rparr>);
          sys2 = sys1\<lparr>state := (state sys1)\<lparr>url := u\<rparr>\<rparr>;
          sys3 = setStatus L connecting sys2;
          r = relaysCreated (net sys3)
      in (sys3\<lparr>net := (net sys3)\<lparr>relaysCreated := r + 1, pending := pending (net sys3) @ [r]\<rparr>\<rparr>, r))"

definition connect_resolved :: "'u Listeners \<Rightarrow> Relay \<Rightarrow> 'u System \<Rightarrow> 'u System" where
  "connect_resolved L r sys =
     setStatus L connected
       (sys\<lparr>net := (net sys)\<lparr>pending := removeAll r (pending (net sys)),
                               openConns := openConns (net sys) @ [r]\<rparr>,
            state := (state sys)\<lparr>relay := Some r\<rparr>\<rparr>)"

definition connect_rejected ::
    "'u Listeners \<Rightarrow> Relay \<Rightarrow> js_error \<Rightarrow> 'u System \<Rightarrow> 'u System completion" where
  "connect_rejected L r err sys =
     Thrown err
       (setStatus L disconnected
          (sys\<lparr>net := (net sys)\<lparr>pending := removeAll r (pending (net sys))\<rparr>\<rparr>))"

text \<open>
  A call of \<^verbatim>\<open>connect(url)\<close> that nothing interleaves with: \<open>outcome\<close> is how the
  awaited promise is settled, \<open>None\<close> when it is fulfilled and \<open>Some err\<close> when it is
  rejected with \<open>err\<close>.
\<close>

definition connect ::
    "'u Listeners \<Rightarrow> string \<Rightarrow> js_error option \<Rightarrow> 'u System \<Rightarrow> 'u System completion" where
  "connect L u outcome sys =
     (case connect_begin L u sys of
        (sys1, r) \<Rightarrow>
          (case outcome of
             None \<Rightarrow> Returned (connect_resolved L r sys1)
           | Some err \<Rightarrow> connect_rejected L r err sys1))"

text \<open>
  The loop of \<^verbatim>\<open>disconnect\<close>,
  \<^verbatim>\<open>for (const [id, sub] of state.subscriptions) { sub.close(); state.subscriptions.delete(id); }\<close>:
  the iterator of a \<^verbatim>\<open>Map\<close> goes on with the entries that are left after the
  current one is deleted. The second component is the log of \<^verbatim>\<open>sub.close()\<close> calls.
\<close>

function closeSubscriptions ::
    "(string \<times> Sub) list \<Rightarrow> Sub list \<Rightarrow> (string \<times> Sub) list \<times> Sub list" where
  "closeSubscriptions [] closes = ([], closes)"
| "closeSubscriptions ((k, sub) # rest) closes =
     closeSubscriptions (AList.delete k ((k, sub) # rest)) (closes @ [sub])"
  by pat_completeness auto
termination
  by (relation "measure (\<lambda>(subs, closes). length subs)")
     (auto simp: AList.delete_eq less_Suc_eq_le)

definition disconnect :: "'u Listeners \<Rightarrow> 'u System \<Rightarrow> 'u System" where
  "disconnect L sys =
     setStatus L disconnected
       (case relay (state sys) of
          None \<Rightarrow> sys
        | Some r \<Rightarrow>
            (case closeSubscriptions (subscriptions (state sys)) (subCloses (net sys)) of
               (subs, closes) \<Rightarrow>
                 sys\<lparr>net := closeRelay r ((net sys)\<lparr>subCloses := closes\<rparr>),
                     state := (state sys)\<lparr>subscriptions := subs, relay := None\<rparr>\<rparr>))"

text \<open>
  The filter of \<^verbatim>\<open>subscribeMemoryEvents\<close>:
  \<^verbatim>\<open>{ kinds: [30078], '#d': ['snow:memory:'] }\<close>.
\<close>

definition memoryFilter :: Filter where
  "memoryFilter = \<lparr>kinds = [30078], tag_d = [''snow:memory:'']\<rparr>"

text \<open>
  The \<^verbatim>\<open>onevent\<close> handler that \<^verbatim>\<open>subscribeMemoryEvents\<close> registers:
  \<^verbatim>\<open>state.eventCount++; for (const fn of eventListeners) fn(event);\<close>
\<close>

definition onevent :: "'u Listeners \<Rightarrow> Event \<Rightarrow> 'u System \<Rightarrow> 'u System" where
  "onevent L event sys =
     (let st = (state sys)\<lparr>eventCount := eventCount (state sys) + 1\<rparr>
      in sys\<lparr>state := st, ui := fold (\<lambda>fn. fn st event) (eventListeners L) (ui sys)\<rparr>)"

text \<open>
  \<^verbatim>\<open>subscribeMemoryEvents()\<close>; \<open>now\<close> is the value of \<^verbatim>\<open>Date.now()\<close>. The result
  is the subscription id, \<open>None\<close> for \<^verbatim>\<open>null\<close>.
\<close>

definition subscribeMemoryEvents :: "int \<Rightarrow> 'u System \<Rightarrow> 'u System \<times> string option" where
  "subscribeMemoryEvents now sys =
     (case relay (state sys) of
        None \<Rightarrow> (sys, None)
      | Some r \<Rightarrow>
          (let subId = ''snow-mem-'' @ showInt now;
               sub = subsCreated (net sys)
           in (sys\<lparr>net := (net sys)\<lparr>subsCreated := sub + 1,
                     subRequests := subRequests (net sys) @ [(r, sub, [memoryFilter])]\<rparr>,
                   state := (state sys)\<lparr>subscriptions :=
                     AList.update subId sub (subscriptions (state sys))\<rparr>\<rparr>,
               Some subId)))"

definition unsubscribe :: "string \<Rightarrow> 'u System \<Rightarrow> 'u System" where
  "unsubscribe subId sys =
     (case map_of (subscriptions (state sys)) subId of
        None \<Rightarrow> sys
      | Some sub \<Rightarrow>
          sys\<lparr>net := (net sys)\<lparr>subCloses := subCloses (net sys) @ [sub]\<rparr>,
              state := (state sys)\<lparr>subscriptions :=
                AList.delete subId (subscriptions (state sys))\<rparr>\<rparr>)"

subsection \<open>What nostr-tools hands to \<^verbatim>\<open>onevent\<close>\<close>

text \<open>
  The values of the \<open>d\<close> tags of an event: of each tag \<^verbatim>\<open>['d', v, ...]\<close> the value
  \<open>v\<close>.
\<close>

fun dValue :: "string list \<Rightarrow> string option" where
  "dValue (k # v # rest) = (if k = ''d'' then Some v else None)"
| "dValue tag = None"

definition dValues :: "Event \<Rightarrow> string list" where
  "dValues event = List.map_filter dValue (tags event)"

text \<open>
  When an event matches a filter, as the Nostr protocol (NIP-01) and \<^verbatim>\<open>matchFilter\<close> of
  nostr-tools have it: its kind is one of \<open>kinds\<close>, and one of its \<open>d\<close> tags has a
  value that is one of the values of \<open>#d\<close>, compared exactly.
\<close>

definition matchFilter :: "Filter \<Rightarrow> Event \<Rightarrow> bool" where
  "matchFilter f event =
     (kind event \<in> set (kinds f)
      \<and> list_ex (\<lambda>v. v \<in> set (tag_d f)) (dValues event))"

text \<open>
  nostr-tools calls the \<^verbatim>\<open>onevent\<close> handler of a subscription with an event when the
  subscription was requested on a relay whose connection is open, \<^verbatim>\<open>sub.close()\<close> was
  not called on it, and the event matches one of its filters. Nothing else is handed to
  \<^verbatim>\<open>onevent\<close>.
\<close>

definition delivers :: "Event \<Rightarrow> 'u System \<Rightarrow> bool" where
  "delivers event sys =
     list_ex (\<lambda>req. fst req \<in> set (openConns (net sys))
                  \<and> fst (snd req) \<notin> set (subCloses (net sys))
                  \<and> list_ex (\<lambda>f. matchFilter f event) (snd (snd req)))
       (subRequests (net sys))"

subsection \<open>The module as a transition system\<close>

text \<open>
  What can happen to the module: a call of one of its exported functions, the settling of
  an awaited \<^verbatim>\<open>relay.connect()\<close>, or an event handed to \<^verbatim>\<open>onevent\<close>. A promise
  is settled only while it is awaited, and an event is handed over only when nostr-tools
  delivers it.
\<close>

datatype Action =
    Connect string
  | Resolved Relay
  | Rejected Relay js_error
  | Disconnect
  | SubscribeMemoryEvents int
  | Unsubscribe string
  | Deliver Event

fun enabled :: "Action \<Rightarrow> 'u System \<Rightarrow> bool" where
  "enabled (Resolved r) sys = (r \<in> set (pending (net sys)))"
| "enabled (Rejected r err) sys = (r \<in> set (pending (net sys)))"
| "enabled (Deliver event) sys = delivers event sys"
| "enabled a sys = True"

fun step :: "'u Listeners \<Rightarrow> Action \<Rightarrow> 'u System \<Rightarrow> 'u System" where
  "step L (Connect u) sys = fst (connect_begin L u sys)"
| "step L (Resolved r) sys = connect_resolved L r sys"
| "step L (Rejected r err) sys = final (connect_rejected L r err sys)"
| "step L Disconnect sys = disconnect L sys"
| "step L (SubscribeMemoryEvents now) sys = fst (subscribeMemoryEvents now sys)"
| "step L (Unsubscribe subId) sys = unsubscribe subId sys"
| "step L (Deliver event) sys = onevent L event sys"

inductive reachable :: "'u Listeners \<Rightarrow> 'u \<Rightarrow> 'u System \<Rightarrow> bool" for L :: "'u Listeners" and u :: "'u" where
  reachable_init: "reachable L u (initialSystem u)"
| reachable_step: "reachable L u sys \<Longrightarrow> enabled a sys \<Longrightarrow> reachable L u (step L a sys)"

text \<open>Running a list of actions; \<open>None\<close> when one of them cannot happen where it stands.\<close>

fun run :: "'u Listeners \<Rightarrow> Action list \<Rightarrow> 'u System \<Rightarrow> 'u System option" where
  "run L [] sys = Some sys"
| "run L (a # as) sys = (if enabled a sys then run L as (step L a sys) else None)"

section \<open>The debug console (src/ui/src/debug-console.ts)\<close>

text \<open>
  The DOM elements that \<^verbatim>\<open>init\<close> looks up and its handlers write: for each, the
  property the handlers set. An element whose content is set through \<^verbatim>\<open>innerHTML\<close>
  is parsed as markup, one set through \<^verbatim>\<open>textContent\<close> is shown as text.
  \<open>logEntries\<close> are the children of \<^verbatim>\<open>#log-entries\<close>, the first child first.
\<close>

datatype Content = InnerHTML string | TextContent string

record LogEntry =
  className :: string
  innerHTML :: string

record Console =
  statusDot_className :: string
  statusText :: string
  btnConnect_disabled :: bool
  btnDisconnect_disabled :: bool
  relayInfo :: string
  subList :: string
  eventCountEl :: string
  inspectOutput :: Content
  logEntries :: "LogEntry list"

text \<open>
  The listener given to \<^verbatim>\<open>relay.onStatusChange\<close>.
  \<^verbatim>\<open>status.charAt(0).toUpperCase() + status.slice(1)\<close> is written out for the three
  values of \<^verbatim>\<open>RelayStatus\<close>.
\<close>

fun capitalized :: "RelayStatus \<Rightarrow> string" where
  "capitalized disconnected = ''Disconnected''"
| "capitalized connecting = ''Connecting''"
| "capitalized connected = ''Connected''"

definition statusListener :: "RelayState \<Rightarrow> RelayStatus \<Rightarrow> Console \<Rightarrow> Console" where
  "statusListener st s c =
     c\<lparr>statusDot_className := ''status-dot '' @
         (if s = connected then ''online'' else if s = connecting then ''connecting'' else ''offline''),
       statusText := capitalized s,
       btnConnect_disabled := (s = connecting),
       btnDisconnect_disabled := (s = disconnected),
       relayInfo := (if s = connected then ''Connected to '' @ url st else [])\<rparr>"

text \<open>
  \<^verbatim>\<open>while (logEntries.children.length > 200) logEntries.removeChild(logEntries.lastChild!)\<close>
\<close>

function trimLog :: "LogEntry list \<Rightarrow> LogEntry list" where
  "trimLog es = (if length es > 200 then trimLog (butlast es) else es)"
  by pat_completeness auto
termination
  by (relation "measure length") auto

declare trimLog.simps [simp del]

text \<open>
  The listener given to \<^verbatim>\<open>relay.onEvent\<close>. \<^verbatim>\<open>new Date(ms).toLocaleTimeString()\<close>
  is a parameter; it does not throw.
\<close>

definition logEntryFor :: "(int \<Rightarrow> string) \<Rightarrow> Event \<Rightarrow> LogEntry" where
  "logEntryFor toLocaleTimeString event =
     \<lparr>className = ''log-entry'',
      innerHTML = ''<strong>'' @ showInt (kind event) @ ''</strong> ''
        @ escapeHtml (take 16 (id_hex event)) @ ''... <em>''
        @ toLocaleTimeString (created_at event * 1000) @ ''</em>''\<rparr>"

definition eventListener :: "(int \<Rightarrow> string) \<Rightarrow> RelayState \<Rightarrow> Event \<Rightarrow> Console \<Rightarrow> Console" where
  "eventListener toLocaleTimeString st event c =
     (let c1 = c\<lparr>eventCountEl := showNat (eventCount st)\<rparr>;
          entry = logEntryFor toLocaleTimeString event
      in c1\<lparr>logEntries := trimLog (entry # logEntries c1)\<rparr>)"

text \<open>The listeners that \<^verbatim>\<open>init\<close> registers, as \<^verbatim>\<open>main\<close> calls it once.\<close>

definition consoleListeners :: "(int \<Rightarrow> string) \<Rightarrow> Console Listeners" where
  "consoleListeners toLocaleTimeString =
     \<lparr>statusListeners = [statusListener], eventListeners = [eventListener toLocaleTimeString]\<rparr>"

text \<open>
  The click handler of the connect button: the rejection of \<^verbatim>\<open>relay.connect(url)\<close> is
  caught and shown. \<open>v\<close> is the value of the URL input.
\<close>

definition btnConnect_click ::
    "Console Listeners \<Rightarrow> string \<Rightarrow> js_error option \<Rightarrow> Console System \<Rightarrow> Console System" where
  "btnConnect_click L v outcome sys =
     (let u = trim v
      in if u = [] then sys
         else (case connect L u outcome sys of
                 Returned sys1 \<Rightarrow> sys1
               | Thrown err sys1 \<Rightarrow>
                   sys1\<lparr>ui := (ui sys1)\<lparr>relayInfo := ''Connection failed: '' @ errorText err\<rparr>\<rparr>))"

definition btnDisconnect_click :: "Console Listeners \<Rightarrow> Console System \<Rightarrow> Console System" where
  "btnDisconnect_click L sys =
     (let sys1 = disconnect L sys
      in sys1\<lparr>ui := (ui sys1)\<lparr>subList := ''No active subscriptions''\<rparr>\<rparr>)"

definition updateSubList :: "Console System \<Rightarrow> Console System" where
  "updateSubList sys =
     (let subs = subscriptions (state sys)
      in sys\<lparr>ui := (ui sys)\<lparr>subList :=
           (if length subs = 0 then ''No active subscriptions''
            else join [newline] (map fst subs))\<rparr>\<rparr>)"

definition btnSubMemory_click :: "int \<Rightarrow> Console System \<Rightarrow> Console System" where
  "btnSubMemory_click now sys =
     (case subscribeMemoryEvents now sys of
        (sys1, None) \<Rightarrow> sys1
      | (sys1, Some subId) \<Rightarrow> updateSubList sys1)"

text \<open>
  The click handler of the event inspector. \<open>v\<close> is the value of the text area.
  \<^verbatim>\<open>JSON.parse\<close> is a parameter: it throws a \<^verbatim>\<open>SyntaxError\<close> on a text that is not
  JSON, and returns the event that the text denotes. An error thrown by
  \<^verbatim>\<open>formatEvent\<close> is caught by the same \<^verbatim>\<open>catch\<close>.
\<close>

definition btnInspect_click ::
    "(string \<Rightarrow> js_error + Event) \<Rightarrow> (int \<Rightarrow> js_error + string) \<Rightarrow> string \<Rightarrow>
      Console System \<Rightarrow> Console System" where
  "btnInspect_click JSON_parse toISOString v sys =
     (let raw = trim v
      in if raw = [] then sys
         else (case JSON_parse raw of
                 Inl err \<Rightarrow>
                   sys\<lparr>ui := (ui sys)\<lparr>inspectOutput := TextContent (''Parse error: '' @ errorText err)\<rparr>\<rparr>
               | Inr event \<Rightarrow>
                   (case formatEvent toISOString event of
                      Inl err \<Rightarrow>
                        sys\<lparr>ui := (ui sys)\<lparr>inspectOutput :=
                          TextContent (''Parse error: '' @ errorText err)\<rparr>\<rparr>
                    | Inr html \<Rightarrow> sys\<lparr>ui := (ui sys)\<lparr>inspectOutput := InnerHTML html\<rparr>\<rparr>)))"

definition btnClearLog_click :: "Console System \<Rightarrow> Console System" where
  "btnClearLog_click sys = sys\<lparr>ui := (ui sys)\<lparr>logEntries := []\<rparr>\<rparr>"

section \<open>Vocabulary of the properties\<close>

text \<open>
  The characters that open or close a tag or an attribute value, the four entities that
  \<^const>\<open>escapeHtml\<close> writes, and what it writes for one character.
\<close>

definition isMarkup :: "char \<Rightarrow> bool" where
  "isMarkup c = (c = CHR ''<'' \<or> c = CHR ''>'' \<or> c = dquote)"

definition entities :: "string list" where
  "entities = [''&amp;'', ''&lt;'', ''&gt;'', ''&quot;'']"

definition beginsEntity :: "string \<Rightarrow> bool" where
  "beginsEntity xs = list_ex (\<lambda>e. prefix e xs) entities"

fun ampsOk :: "string \<Rightarrow> bool" where
  "ampsOk [] = True"
| "ampsOk (c # cs) = ((if c = CHR ''&'' then beginsEntity (c # cs) else True) \<and> ampsOk cs)"

definition escapeChar :: "char \<Rightarrow> string" where
  "escapeChar c =
     (if c = CHR ''&'' then ''&amp;'' else if c = CHR ''<'' then ''&lt;''
      else if c = CHR ''>'' then ''&gt;'' else if c = dquote then ''&quot;'' else [c])"

text \<open>Two events for the examples: one whose fields hold markup, one whose fields are empty.\<close>

definition sampleEvent :: Event where
  "sampleEvent =
     \<lparr>id_hex = ''<script>'', pubkey = ''a&b'', created_at = 0, kind = 30078,
      tags = [[''d'', ''snow:memory:<b>''], [''t'', [dquote]]], content = ''</div>'', sig = []\<rparr>"

definition plainEvent :: Event where
  "plainEvent =
     \<lparr>id_hex = [], pubkey = [], created_at = 0, kind = 30078,
      tags = [[''d''], []], content = [], sig = []\<rparr>"

text \<open>
  The address of an addressable event is the value of its first \<open>d\<close> tag. A memory
  record has an address in the namespace \<open>snow:memory:\<close>.
\<close>

definition address :: "Event \<Rightarrow> string option" where
  "address event = (case dValues event of [] \<Rightarrow> None | v # vs \<Rightarrow> Some v)"

definition inMemoryNamespace :: "Event \<Rightarrow> bool" where
  "inMemoryNamespace event =
     (case address event of None \<Rightarrow> False | Some v \<Rightarrow> prefix ''snow:memory:'' v)"

text \<open>
  Values for the examples: a console before any handler ran, a console whose log is full,
  a console that shows an earlier inspection, an event that is no memory record (wrong kind, an address outside
  the namespace, a content that is not JSON), a rendering of the time of day, an error
  of a failed connection, and what \<^verbatim>\<open>JSON.parse\<close> does on a text that is not JSON
  (the examples give it no other text: the empty text and \<^verbatim>\<open>{bad\<close>).
\<close>

definition console0 :: Console where
  "console0 =
     \<lparr>statusDot_className = ''status-dot offline'', statusText = ''Disconnected'',
      btnConnect_disabled = False, btnDisconnect_disabled = True, relayInfo = [],
      subList = ''No active subscriptions'', eventCountEl = ''0'',
      inspectOutput = TextContent [], logEntries = []\<rparr>"

definition fullConsole :: Console where
  "fullConsole = console0\<lparr>logEntries := replicate 200 (logEntryFor (\<lambda>ms. ''23:59:59'') plainEvent)\<rparr>"

definition inspectedConsole :: Console where
  "inspectedConsole = console0\<lparr>inspectOutput := InnerHTML ''<div>earlier event</div>''\<rparr>"

definition malformedEvent :: Event where
  "malformedEvent =
     \<lparr>id_hex = ''00'', pubkey = ''ff'', created_at = 0, kind = 1,
      tags = [[''d'', ''other:thing'']], content = ''{not json'', sig = []\<rparr>"

definition timeOfDay :: "int \<Rightarrow> string" where
  "timeOfDay ms = ''00:00:00''"

definition connectionError :: js_error where
  "connectionError = JsError ''Error'' ''connection timed out''"

definition syntaxError :: js_error where
  "syntaxError = JsError ''SyntaxError'' ''Unexpected token''"

definition parseOfNonJSON :: "string \<Rightarrow> js_error + Event" where
  "parseOfNonJSON s = Inl syntaxError"

text \<open>
  What holds in every state the module can reach: without a relay there are no
  subscriptions; the keys of the map are distinct and so are the \<^verbatim>\<open>Sub\<close> objects it
  holds; none of these was closed; and every subscription was requested with the filter of
  \<^verbatim>\<open>subscribeMemoryEvents\<close>.
\<close>

definition wellFormed :: "'u System \<Rightarrow> bool" where
  "wellFormed sys =
     ((relay (state sys) = None \<longrightarrow> subscriptions (state sys) = [])
      \<and> distinct (map fst (subscriptions (state sys)))
      \<and> distinct (map snd (subscriptions (state sys)))
      \<and> (\<forall>sub \<in> set (map snd (subscriptions (state sys))).
            sub < subsCreated (net sys) \<and> sub \<notin> set (subCloses (net sys)))
      \<and> (\<forall>sub \<in> set (subCloses (net sys)). sub < subsCreated (net sys))
      \<and> (\<forall>req \<in> set (subRequests (net sys)). snd (snd req) = [memoryFilter]))"

text \<open>No listeners, for the examples that are about the module alone.\<close>

definition noListeners :: "unit Listeners" where
  "noListeners = \<lparr>statusListeners = [], eventListeners = []\<rparr>"

text \<open>
  A listener that keeps every event it is given, in the order it is given them.
\<close>

definition recordingListeners :: "Event list Listeners" where
  "recordingListeners = \<lparr>statusListeners = [], eventListeners = [\<lambda>st event evs. evs @ [event]]\<rparr>"

text \<open>
  The module after \<^verbatim>\<open>connect('wss://relay.example')\<close> has succeeded and
  \<^verbatim>\<open>subscribeMemoryEvents()\<close> was called at the time 1, with whatever the listeners
  made of it, and the console as its status listener leaves it then.
\<close>

definition listeningTrace :: "Action list" where
  "listeningTrace = [Connect ''wss://relay.example'', Resolved 0, SubscribeMemoryEvents 1]"

definition listening :: "'u \<Rightarrow> 'u System" where
  "listening u =
     \<lparr>state = \<lparr>url = ''wss://relay.example'', relay = Some 0, status = connected,
               subscriptions = [(''snow-mem-1'', 0)], eventCount = 0\<rparr>,
      net = \<lparr>relaysCreated = 1, pending = [], openConns = [0], relayCloses = [], subsCreated = 1,
             subRequests = [(0, 0, [memoryFilter])], subCloses = []\<rparr>,
      ui = u\<rparr>"

definition connectedConsole :: Console where
  "connectedConsole =
     console0\<lparr>statusDot_className := ''status-dot online'', statusText := ''Connected'',
       btnConnect_disabled := False, btnDisconnect_disabled := False,
       relayInfo := ''Connected to wss://relay.example''\<rparr>"

text \<open>
  Two events that match the filter of \<^verbatim>\<open>subscribeMemoryEvents\<close>: one whose content is
  not JSON and that has none of the \<open>snow:\<close> tags of a memory record, and one whose first
  \<open>d\<close> tag, its address, is outside the namespace.
\<close>

definition unparsableEvent :: Event where
  "unparsableEvent =
     \<lparr>id_hex = ''00'', pubkey = ''ff'', created_at = 0, kind = 30078,
      tags = [[''d'', ''snow:memory:'']], content = ''{not json'', sig = []\<rparr>"

definition twoAddressEvent :: Event where
  "twoAddressEvent =
     \<lparr>id_hex = ''01'', pubkey = ''ff'', created_at = 0, kind = 30078,
      tags = [[''d'', ''other:thing''], [''d'', ''snow:memory:'']], content = ''{}'', sig = []\<rparr>"

text \<open>
  Two calls of \<^verbatim>\<open>subscribeMemoryEvents()\<close> in the same millisecond, then
  \<^verbatim>\<open>disconnect()\<close>.
\<close>

definition collidingTrace :: "Action list" where
  "collidingTrace =
     [Connect ''wss://relay.example'', Resolved 0, SubscribeMemoryEvents 5, SubscribeMemoryEvents 5,
      Disconnect]"

text \<open>
  Two connection attempts in flight at once, as the buttons of the console allow: connect,
  disconnect while the first attempt is pending, connect again, and both attempts succeed.
\<close>

definition overlappingTrace :: "Action list" where
  "overlappingTrace =
     [Connect ''wss://a.example'', Disconnect, Connect ''wss://b.example'', Resolved 0, Resolved 1]"

section \<open>Ranking and conflict detection (spec.md, sections 3, 4.4 and 4.5)\<close>

text \<open>
  Modelled from the spec: the memory crate that \<^verbatim>\<open>rank_memories\<close> and
  \<^verbatim>\<open>detect_conflicts\<close> belong to is not among the sources; the design notes declare their
  signatures only. The definitions of this section follow the words of the spec. Scores
  are rational numbers.
\<close>

text \<open>Modelled from the spec: the visibility tier of a record.\<close>

datatype Tier = Public | Group string | Private string

text \<open>Modelled from the spec: \<^verbatim>\<open>MemoryRecord\<close> of section 3.\<close>

record MemoryRecord =
  mem_id :: string
  tier :: Tier
  topic :: string
  summary :: string
  detail :: string
  source :: string
  producingModel :: string
  confidence :: rat
  supersedes :: "string option"
  mem_tags :: "string list"
  createdAt :: int

text \<open>
  Modelled from the spec: \<^verbatim>\<open>SourcePreference\<close>, an ordered list of entries, each an
  identity or a group with its trust weight.
\<close>

datatype PreferenceKey = Identity string | GroupId string

text \<open>Modelled from the spec: an entry of the preference list.\<close>

record SourcePreference =
  prefKey :: PreferenceKey
  weight :: rat

text \<open>
  Modelled from the spec: \<^verbatim>\<open>ModelTierTable\<close>, an ordered mapping from patterns of model
  names, exact or with a trailing wildcard, to tiers.
\<close>

datatype ModelPattern = Exact string | Wildcard string

text \<open>Modelled from the spec: when a pattern of the table matches a model name.\<close>

fun matchesModel :: "ModelPattern \<Rightarrow> string \<Rightarrow> bool" where
  "matchesModel (Exact p) m = (m = p)"
| "matchesModel (Wildcard p) m = prefix p m"

text \<open>Modelled from the spec: the first entry of a list that matches, with its position.\<close>

fun firstMatch :: "('a \<Rightarrow> bool) \<Rightarrow> 'a list \<Rightarrow> (nat \<times> 'a) option" where
  "firstMatch P [] = None"
| "firstMatch P (x # xs) =
     (if P x then Some (0, x)
      else (case firstMatch P xs of None \<Rightarrow> None | Some (i, y) \<Rightarrow> Some (Suc i, y)))"

text \<open>
  Modelled from the spec: step 1 of the ranking algorithm, the first entry of the
  preference list that matches the item's source, or its group if the source is unmatched
  and the item's tier is a matched group.
\<close>

definition matchedPreference :: "SourcePreference list \<Rightarrow> MemoryRecord \<Rightarrow> (nat \<times> SourcePreference) option" where
  "matchedPreference prefs m =
     (case firstMatch (\<lambda>p. prefKey p = Identity (source m)) prefs of
        Some e \<Rightarrow> Some e
      | None \<Rightarrow>
          (case tier m of
             Group g \<Rightarrow> firstMatch (\<lambda>p. prefKey p = GroupId g) prefs
           | Public \<Rightarrow> None
           | Private owner \<Rightarrow> None))"

text \<open>
  Modelled from the spec: the tier of the first pattern that matches the producing model;
  \<open>None\<close> is the unranked tier.
\<close>

definition modelTierOf :: "(ModelPattern \<times> nat) list \<Rightarrow> string \<Rightarrow> nat option" where
  "modelTierOf table m =
     (case firstMatch (\<lambda>e. matchesModel (fst e) m) table of
        None \<Rightarrow> None
      | Some (i, e) \<Rightarrow> Some (snd e))"

text \<open>Modelled from the spec: an entry of the result of \<^verbatim>\<open>search\<close>.\<close>

record SearchResult =
  item :: MemoryRecord
  relevance :: rat
  trustWeight :: rat
  sourceRank :: "nat option"
  modelTier :: "nat option"
  effectiveScore :: rat

text \<open>
  Modelled from the spec: steps 1 and 2 of the ranking algorithm for one item with its
  relevance; \<open>defaultWeight\<close> is the configured weight of an unmatched source.
\<close>

definition scoreItem ::
    "SourcePreference list \<Rightarrow> rat \<Rightarrow> (ModelPattern \<times> nat) list \<Rightarrow> MemoryRecord \<times> rat \<Rightarrow> SearchResult" where
  "scoreItem prefs defaultWeight table x =
     (let m = fst x;
          rel = snd x;
          matched = matchedPreference prefs m;
          w = (case matched of None \<Rightarrow> defaultWeight | Some (i, p) \<Rightarrow> weight p)
      in \<lparr>item = m, relevance = rel, trustWeight = w,
          sourceRank = map_option fst matched,
          modelTier = modelTierOf table (producingModel m),
          effectiveScore = rel * w\<rparr>)"

text \<open>
  Modelled from the spec: ascending order of a rank or tier, the unranked one last.
\<close>

fun rankLess :: "nat option \<Rightarrow> nat option \<Rightarrow> bool" where
  "rankLess (Some a) (Some b) = (a < b)"
| "rankLess (Some a) None = True"
| "rankLess None b = False"

text \<open>
  Modelled from the spec: steps 3 to 6, the order of two results. \<open>ranksBefore a b\<close> when
  \<open>a\<close> may stand before \<open>b\<close>.
\<close>

definition ranksBefore :: "SearchResult \<Rightarrow> SearchResult \<Rightarrow> bool" where
  "ranksBefore a b =
     (effectiveScore a > effectiveScore b
      \<or> (effectiveScore a = effectiveScore b
          \<and> (rankLess (sourceRank a) (sourceRank b)
              \<or> (sourceRank a = sourceRank b
                  \<and> (rankLess (modelTier a) (modelTier b)
                      \<or> (modelTier a = modelTier b
                          \<and> createdAt (item a) \<ge> createdAt (item b)))))))"

text \<open>
  Modelled from the spec: the ranking as an insertion sort by that order, which keeps
  results of equal keys in the order they came in.
\<close>

fun insertRanked :: "SearchResult \<Rightarrow> SearchResult list \<Rightarrow> SearchResult list" where
  "insertRanked x [] = [x]"
| "insertRanked x (y # ys) = (if ranksBefore x y then x # y # ys else y # insertRanked x ys)"

text \<open>
  Modelled from the spec: \<^verbatim>\<open>rank_memories\<close>, steps 1 to 6 of section 4.4 on a list of
  items with their relevance.
\<close>

definition rank_memories ::
    "SourcePreference list \<Rightarrow> rat \<Rightarrow> (ModelPattern \<times> nat) list \<Rightarrow> (MemoryRecord \<times> rat) list \<Rightarrow>
      SearchResult list" where
  "rank_memories prefs defaultWeight table results =
     foldr insertRanked (map (scoreItem prefs defaultWeight table) results) []"

text \<open>
  Modelled from the spec: the current versions of a collection, those with no known
  successor.
\<close>

definition currentVersions :: "MemoryRecord list \<Rightarrow> MemoryRecord list" where
  "currentVersions ms =
     filter (\<lambda>m. \<not> list_ex (\<lambda>n. supersedes n = Some (mem_id m)) ms) ms"

text \<open>
  Modelled from the spec: the groups of records of the same topic, in the order in which
  the topics first occur.
\<close>

fun groupByTopic :: "MemoryRecord list \<Rightarrow> MemoryRecord list list" where
  "groupByTopic [] = []"
| "groupByTopic (m # ms) =
     (m # filter (\<lambda>x. topic x = topic m) ms)
       # groupByTopic (filter (\<lambda>x. topic x \<noteq> topic m) ms)"

text \<open>
  Modelled from the spec: two records disagree when they come from distinct sources and
  their details differ after normalization; a group is a conflict when two of its records
  disagree. The normalization is a parameter.
\<close>

definition disagree :: "(string \<Rightarrow> string) \<Rightarrow> MemoryRecord \<Rightarrow> MemoryRecord \<Rightarrow> bool" where
  "disagree canon a b = (source a \<noteq> source b \<and> canon (detail a) \<noteq> canon (detail b))"

text \<open>Modelled from the spec: whether two records of a group disagree.\<close>

fun isConflict :: "(string \<Rightarrow> string) \<Rightarrow> MemoryRecord list \<Rightarrow> bool" where
  "isConflict canon [] = False"
| "isConflict canon (x # xs) = (list_ex (disagree canon x) xs \<or> isConflict canon xs)"

text \<open>Modelled from the spec: \<^verbatim>\<open>detectConflicts(items)\<close> of section 4.5.\<close>

definition detectConflicts :: "(string \<Rightarrow> string) \<Rightarrow> MemoryRecord list \<Rightarrow> MemoryRecord list list" where
  "detectConflicts canon items = filter (isConflict canon) (groupByTopic (currentVersions items))"

text \<open>
  Values for the examples of ranking and conflicts: the preference list and the two
  records of equal relevance of section 8 of the spec, a table of model tiers, and records
  of two topics, of which the first is disputed.
\<close>

definition examplePrefs :: "SourcePreference list" where
  "examplePrefs = [\<lparr>prefKey = Identity ''A'', weight = 9 / 10\<rparr>, \<lparr>prefKey = Identity ''B'', weight = 1 / 2\<rparr>]"

definition exampleTiers :: "(ModelPattern \<times> nat) list" where
  "exampleTiers = [(Exact ''anthropic/claude-opus-4'', 1), (Wildcard ''meta/llama-'', 4)]"

definition exampleRecord :: "string \<Rightarrow> string \<Rightarrow> string \<Rightarrow> string \<Rightarrow> MemoryRecord" where
  "exampleRecord i t s d =
     \<lparr>mem_id = i, tier = Public, topic = t, summary = [], detail = d, source = s,
      producingModel = ''meta/llama-3'', confidence = 1, supersedes = None, mem_tags = [],
      createdAt = 0\<rparr>"

definition recordOfA :: MemoryRecord where
  "recordOfA = exampleRecord ''1'' ''auth'' ''A'' ''use NIP-42''"

definition recordOfB :: MemoryRecord where
  "recordOfB = exampleRecord ''2'' ''auth'' ''B'' ''use NIP-98''"

definition agreedOfA :: MemoryRecord where
  "agreedOfA = exampleRecord ''3'' ''relay'' ''A'' ''wss''"

definition agreedOfB :: MemoryRecord where
  "agreedOfB = exampleRecord ''4'' ''relay'' ''B'' ''wss''"

chapter \<open>Properties\<close>

section \<open>Escaping\<close>

lemma replaceAll_Nil: "replaceAll c r [] = []"
  by (simp add: replaceAll_def)

lemma replaceAll_append: "replaceAll c r (xs @ ys) = replaceAll c r xs @ replaceAll c r ys"
  by (simp add: replaceAll_def)

lemma replaceAll_Cons: "replaceAll c r (x # xs) = (if x = c then r else [x]) @ replaceAll c r xs"
  by (simp add: replaceAll_def)

lemma escapeHtml_Nil: "escapeHtml [] = []"
  by (simp add: escapeHtml_def replaceAll_def)

lemma escapeHtml_Cons: "escapeHtml (c # s) = escapeChar c @ escapeHtml s"
  by (simp add: escapeHtml_def escapeChar_def replaceAll_Cons replaceAll_append dquote_def replaceAll_Nil)

lemma filter_isMarkup_escapeChar: "filter isMarkup (escapeChar c) = []"
  by (simp add: escapeChar_def isMarkup_def dquote_def)

lemma filter_isMarkup_escapeHtml: "filter isMarkup (escapeHtml s) = []"
  by (induction s) (simp_all add: escapeHtml_Nil escapeHtml_Cons filter_isMarkup_escapeChar)

lemma ampsOk_escapeChar: "ampsOk ys \<Longrightarrow> ampsOk (escapeChar c @ ys)"
  by (simp add: escapeChar_def beginsEntity_def entities_def dquote_def)

lemma ampsOk_escapeHtml: "ampsOk (escapeHtml s)"
  by (induction s) (simp_all add: escapeHtml_Nil escapeHtml_Cons ampsOk_escapeChar)

lemma ampsOk_nth: "ampsOk xs \<Longrightarrow> i < length xs \<Longrightarrow> xs ! i = CHR ''&'' \<Longrightarrow> beginsEntity (drop i xs)"
proof (induction xs arbitrary: i)
  case Nil
  then show ?case by simp
next
  case (Cons c cs)
  show ?case
  proof (cases i)
    case 0
    with Cons.prems show ?thesis by simp
  next
    case (Suc j)
    with Cons.prems Cons.IH [of j] show ?thesis by simp
  qed
qed

lemma filter_join:
  "filter P sep = [] \<Longrightarrow> filter P (join sep xs) = concat (map (filter P) xs)"
  by (induction sep xs rule: join.induct) simp_all

lemma filter_isMarkup_join_escapeHtml:
  "filter isMarkup sep = [] \<Longrightarrow> filter isMarkup (join sep (map escapeHtml tag)) = []"
  by (simp add: filter_join filter_isMarkup_escapeHtml)

lemma filter_isMarkup_renderTag:
  "filter isMarkup (renderTag tag) =
     (if isSnow tag then ''<'' @ [dquote, dquote] @ ''><>'' else ''<><>'')"
proof -
  have "filter isMarkup '', '' = []"
    by (simp add: isMarkup_def dquote_def)
  then have "filter isMarkup (join '', '' (map escapeHtml tag)) = []"
    by (rule filter_isMarkup_join_escapeHtml)
  then show ?thesis
    by (simp add: renderTag_def Let_def isMarkup_def dquote_def)
qed

lemma filter_isMarkup_renderTags:
  "filter isMarkup (renderTags ts) =
     concat (map (\<lambda>b. if b then ''<'' @ [dquote, dquote] @ ''><>'' else ''<><>'') (map isSnow ts))"
proof -
  have "filter isMarkup [newline] = []"
    by (simp add: isMarkup_def newline_def dquote_def)
  then have "filter isMarkup (renderTags ts) = concat (map (filter isMarkup) (map renderTag ts))"
    unfolding renderTags_def by (rule filter_join)
  also have "\<dots> = concat (map (\<lambda>b. if b then ''<'' @ [dquote, dquote] @ ''><>'' else ''<><>'') (map isSnow ts))"
    by (simp add: filter_isMarkup_renderTag comp_def)
  finally show ?thesis .
qed

lemma formatEvent_markup:
  assumes "kind e1 = kind e2" and "created_at e1 = created_at e2"
    and "map isSnow (tags e1) = map isSnow (tags e2)"
  shows "map_sum (\<lambda>err. err) (filter isMarkup) (formatEvent f e1)
       = map_sum (\<lambda>err. err) (filter isMarkup) (formatEvent f e2)"
  using assms
  by (simp add: formatEvent_def filter_isMarkup_escapeHtml filter_isMarkup_renderTags
      split: sum.splits)

text \<open>
  Claim C8. For every string \<open>s\<close>, \<open>escapeHtml s\<close> holds none of the characters
  \<open><\<close>, \<open>>\<close> and the double quote, and every \<open>&\<close> in it begins one of the entities
  \<open>&amp;\<close>, \<open>&lt;\<close>, \<open>&gt;\<close>, \<open>&quot;\<close>. The fields \<open>id\<close>, \<open>pubkey\<close>, \<open>content\<close>
  and the tag values reach the HTML of \<open>formatEvent\<close> and \<open>renderTags\<close> through
  \<open>escapeHtml\<close> only, so they cannot add markup: two events of the same kind and time whose
  tags are highlighted alike give HTML with the same markup characters, whatever these
  fields hold.
\<close>

theorem escapeHtml_blocks_markup:
  "set (escapeHtml s) \<inter> {CHR ''<'', CHR ''>'', dquote} = {}
   \<and> (\<forall>i < length (escapeHtml s). escapeHtml s ! i = CHR ''&'' \<longrightarrow>
        (\<exists>e \<in> set entities. prefix e (drop i (escapeHtml s))))
   \<and> (kind e1 = kind e2 \<and> created_at e1 = created_at e2
        \<and> map isSnow (tags e1) = map isSnow (tags e2) \<longrightarrow>
      map_sum (\<lambda>err. err) (filter isMarkup) (formatEvent toISOString e1)
        = map_sum (\<lambda>err. err) (filter isMarkup) (formatEvent toISOString e2))"
proof (intro conjI allI impI)
  have "filter isMarkup (escapeHtml s) = []"
    by (rule filter_isMarkup_escapeHtml)
  then have "\<forall>c \<in> set (escapeHtml s). \<not> isMarkup c"
    by (simp add: filter_empty_conv)
  then show "set (escapeHtml s) \<inter> {CHR ''<'', CHR ''>'', dquote} = {}"
    by (auto simp: isMarkup_def)
next
  fix i
  assume "i < length (escapeHtml s)" and "escapeHtml s ! i = CHR ''&''"
  with ampsOk_escapeHtml [of s] have "beginsEntity (drop i (escapeHtml s))"
    by (rule ampsOk_nth)
  then show "\<exists>e \<in> set entities. prefix e (drop i (escapeHtml s))"
    by (simp add: beginsEntity_def list_ex_iff)
next
  assume "kind e1 = kind e2 \<and> created_at e1 = created_at e2
    \<and> map isSnow (tags e1) = map isSnow (tags e2)"
  then show "map_sum (\<lambda>err. err) (filter isMarkup) (formatEvent toISOString e1)
        = map_sum (\<lambda>err. err) (filter isMarkup) (formatEvent toISOString e2)"
    by (intro formatEvent_markup) simp_all
qed


theorem escapeHtml_blocks_markup_witness:
  "set (escapeHtml ''<a&b>'') \<inter> {CHR ''<'', CHR ''>'', dquote} = {}
   \<and> 5 < length (escapeHtml ''<a&b>'') \<and> escapeHtml ''<a&b>'' ! 5 = CHR ''&''
   \<and> (\<exists>e \<in> set entities. prefix e (drop 5 (escapeHtml ''<a&b>'')))
   \<and> kind sampleEvent = kind plainEvent \<and> created_at sampleEvent = created_at plainEvent
   \<and> map isSnow (tags sampleEvent) = map isSnow (tags plainEvent)
   \<and> map_sum (\<lambda>err. err) (filter isMarkup) (formatEvent (\<lambda>ms. Inr ''1970-01-01T00:00:00.000Z'') sampleEvent)
        = map_sum (\<lambda>err. err) (filter isMarkup) (formatEvent (\<lambda>ms. Inr ''1970-01-01T00:00:00.000Z'') plainEvent)"
proof -
  have e: "escapeHtml ''<a&b>'' = ''&lt;a&amp;b&gt;''"
    by (simp add: escapeHtml_def replaceAll_def dquote_def)
  have t: "map isSnow (tags sampleEvent) = map isSnow (tags plainEvent)"
    by (simp add: sampleEvent_def plainEvent_def isSnow_def SNOW_TAG_PREFIXES_def)
  have k: "kind sampleEvent = kind plainEvent \<and> created_at sampleEvent = created_at plainEvent"
    by (simp add: sampleEvent_def plainEvent_def)
  note th = escapeHtml_blocks_markup [of "''<a&b>''" sampleEvent plainEvent "\<lambda>ms. Inr ''1970-01-01T00:00:00.000Z''"]
  from th have c1: "set (escapeHtml ''<a&b>'') \<inter> {CHR ''<'', CHR ''>'', dquote} = {}"
    by (rule conjunct1)
  from th have q: "\<forall>i < length (escapeHtml ''<a&b>''). escapeHtml ''<a&b>'' ! i = CHR ''&'' \<longrightarrow>
        (\<exists>e \<in> set entities. prefix e (drop i (escapeHtml ''<a&b>'')))"
    by blast
  have c4: "5 < length (escapeHtml ''<a&b>'') \<and> escapeHtml ''<a&b>'' ! 5 = CHR ''&''"
    by (simp only: e) simp
  from q c4 have c2: "\<exists>e \<in> set entities. prefix e (drop 5 (escapeHtml ''<a&b>''))"
    by blast
  from th t k have c3: "map_sum (\<lambda>err. err) (filter isMarkup) (formatEvent (\<lambda>ms. Inr ''1970-01-01T00:00:00.000Z'') sampleEvent)
        = map_sum (\<lambda>err. err) (filter isMarkup) (formatEvent (\<lambda>ms. Inr ''1970-01-01T00:00:00.000Z'') plainEvent)"
    by blast
  from c1 c2 c3 c4 t k show ?thesis by blast
qed

section \<open>The event log\<close>

lemma trimLog_take: "trimLog es = take 200 es"
proof (induction es rule: trimLog.induct)
  case (1 es)
  show ?case
  proof (cases "length es > 200")
    case True
    then have "trimLog es = trimLog (butlast es)"
      by (subst trimLog.simps) simp
    also have "\<dots> = take 200 (butlast es)"
      using True by (rule "1.IH")
    also have "\<dots> = take 200 es"
      using True by (simp add: take_butlast)
    finally show ?thesis .
  next
    case False
    then show ?thesis
      by (subst trimLog.simps) simp
  qed
qed

lemma onevent_console_log:
  "logEntries (ui (onevent (consoleListeners fmt) ev sys))
     = take 200 (logEntryFor fmt ev # logEntries (ui sys))"
  by (simp add: onevent_def consoleListeners_def eventListener_def Let_def trimLog_take)

lemma take_append_take: "take n (xs @ take n ys) = take n (xs @ ys)"
  by (simp add: min_def)

lemma fold_onevent_console_log:
  "length (logEntries (ui sys)) \<le> 200 \<Longrightarrow> logEntries (ui (fold (onevent (consoleListeners fmt)) evs sys))
     = take 200 (rev (map (logEntryFor fmt) evs) @ logEntries (ui sys))"
proof (induction evs arbitrary: sys)
  case Nil
  then show ?case by simp
next
  case (Cons ev evs)
  have "length (logEntries (ui (onevent (consoleListeners fmt) ev sys))) \<le> 200"
    by (simp add: onevent_console_log)
  then have "logEntries (ui (fold (onevent (consoleListeners fmt)) (ev # evs) sys))
      = take 200 (rev (map (logEntryFor fmt) evs) @ logEntries (ui (onevent (consoleListeners fmt) ev sys)))"
    by (simp add: Cons.IH)
  also have "\<dots> = take 200 (rev (map (logEntryFor fmt) evs) @ take 200 (logEntryFor fmt ev # logEntries (ui sys)))"
    by (simp only: onevent_console_log)
  also have "\<dots> = take 200 (rev (map (logEntryFor fmt) evs) @ logEntryFor fmt ev # logEntries (ui sys))"
    by (rule take_append_take)
  finally show ?case by simp
qed


text \<open>
  Claim C10. After the handler of the event log has processed an event, the log holds at
  most 200 entries: the new entry comes first, and what is removed is removed at the end.
  From a log of at most 200 entries, the log after any sequence of events holds the most
  recent 200.
\<close>

theorem event_log_bounded:
  "logEntries (ui (onevent (consoleListeners fmt) ev sys))
       = take 200 (logEntryFor fmt ev # logEntries (ui sys))
   \<and> length (logEntries (ui (onevent (consoleListeners fmt) ev sys))) \<le> 200
   \<and> hd (logEntries (ui (onevent (consoleListeners fmt) ev sys))) = logEntryFor fmt ev
   \<and> (length (logEntries (ui sys)) \<le> 200 \<longrightarrow>
        logEntries (ui (fold (onevent (consoleListeners fmt)) evs sys))
          = take 200 (rev (map (logEntryFor fmt) evs) @ logEntries (ui sys)))"
  by (simp add: onevent_console_log fold_onevent_console_log)

theorem event_log_bounded_witness:
  "length (logEntries (ui (initialSystem fullConsole))) \<le> 200
   \<and> logEntries (ui (onevent (consoleListeners timeOfDay) malformedEvent (initialSystem fullConsole)))
       = logEntryFor timeOfDay malformedEvent
           # replicate 199 (logEntryFor (\<lambda>ms. ''23:59:59'') plainEvent)
   \<and> logEntries (ui (fold (onevent (consoleListeners timeOfDay)) [sampleEvent, malformedEvent]
          (initialSystem fullConsole)))
       = logEntryFor timeOfDay malformedEvent # logEntryFor timeOfDay sampleEvent
           # replicate 198 (logEntryFor (\<lambda>ms. ''23:59:59'') plainEvent)"
  using event_log_bounded [of timeOfDay malformedEvent "initialSystem fullConsole"
      "[sampleEvent, malformedEvent]"]
  by (simp add: initialSystem_def fullConsole_def)

section \<open>The event inspector\<close>

text \<open>
  Claim C7 as stated fails on an input that is empty or blank: the handler returns before
  it parses, nothing is shown, and an earlier inspection stays on the screen.
\<close>

theorem inspect_empty_input_counterexample:
  "parseOfNonJSON (trim ''  '') = Inl syntaxError
   \<and> btnInspect_click parseOfNonJSON (\<lambda>ms. Inr []) ''  '' (initialSystem inspectedConsole)
       = initialSystem inspectedConsole
   \<and> inspectOutput (ui (initialSystem inspectedConsole)) = InnerHTML ''<div>earlier event</div>''"
  by (simp add: btnInspect_click_def trim_def isWhiteSpace_def parseOfNonJSON_def
      initialSystem_def inspectedConsole_def)

text \<open>
  Claim C7, amended. For every input that is not blank and is not valid JSON, the inspector
  shows \<open>Parse error:\<close> and the error as the text of its output element. The handler returns
  (the error is caught), and the state of the relay module, the calls made to nostr-tools
  and every other element of the console, the event count and the log among them, are what
  they were. On a blank input the handler changes nothing at all.
\<close>

theorem inspect_reports_parse_error:
  "(trim v \<noteq> [] \<and> JSON_parse (trim v) = Inl err \<longrightarrow>
      btnInspect_click JSON_parse toISOString v sys
        = sys\<lparr>ui := (ui sys)\<lparr>inspectOutput := TextContent (''Parse error: '' @ errorText err)\<rparr>\<rparr>)
   \<and> (trim v = [] \<longrightarrow> btnInspect_click JSON_parse toISOString v sys = sys)"
  by (simp add: btnInspect_click_def Let_def)

theorem inspect_reports_parse_error_witness:
  "trim '' {bad '' \<noteq> [] \<and> parseOfNonJSON (trim '' {bad '') = Inl syntaxError
   \<and> btnInspect_click parseOfNonJSON (\<lambda>ms. Inr []) '' {bad '' (initialSystem inspectedConsole)
       = (initialSystem inspectedConsole)\<lparr>ui := inspectedConsole\<lparr>inspectOutput :=
           TextContent ''Parse error: SyntaxError: Unexpected token''\<rparr>\<rparr>
   \<and> trim [CHR 0x09, CHR 0x20] = []
   \<and> btnInspect_click parseOfNonJSON (\<lambda>ms. Inr []) [CHR 0x09, CHR 0x20] (initialSystem inspectedConsole)
       = initialSystem inspectedConsole"
proof -
  have t: "trim '' {bad '' = ''{bad''"
    by (simp add: trim_def isWhiteSpace_def)
  have p: "parseOfNonJSON (trim '' {bad '') = Inl syntaxError"
    by (simp add: parseOfNonJSON_def)
  have b: "trim [CHR 0x09, CHR 0x20] = []"
    by (simp add: trim_def isWhiteSpace_def)
  note th = inspect_reports_parse_error [of "'' {bad ''" parseOfNonJSON syntaxError "\<lambda>ms. Inr []"
      "initialSystem inspectedConsole"]
  note th0 = inspect_reports_parse_error [of "[CHR 0x09, CHR 0x20]" parseOfNonJSON syntaxError
      "\<lambda>ms. Inr []" "initialSystem inspectedConsole"]
  from t p th
  have c1: "btnInspect_click parseOfNonJSON (\<lambda>ms. Inr []) '' {bad '' (initialSystem inspectedConsole)
       = (initialSystem inspectedConsole)\<lparr>ui := inspectedConsole\<lparr>inspectOutput :=
           TextContent ''Parse error: SyntaxError: Unexpected token''\<rparr>\<rparr>"
    by (simp add: syntaxError_def initialSystem_def)
  from b th0
  have c2: "btnInspect_click parseOfNonJSON (\<lambda>ms. Inr []) [CHR 0x09, CHR 0x20]
      (initialSystem inspectedConsole) = initialSystem inspectedConsole"
    by blast
  from t have t': "trim '' {bad '' \<noteq> []"
    by simp
  from t' p c1 b c2 show ?thesis
    by (intro conjI)
qed

section \<open>Events handed to the module\<close>

lemma onevent_state:
  "state (onevent L ev sys) = (state sys)\<lparr>eventCount := eventCount (state sys) + 1\<rparr>"
  by (simp add: onevent_def Let_def)

lemma onevent_net: "net (onevent L ev sys) = net sys"
  by (simp add: onevent_def Let_def)

lemma onevent_ui:
  "ui (onevent L ev sys)
     = fold (\<lambda>fn. fn ((state sys)\<lparr>eventCount := eventCount (state sys) + 1\<rparr>) ev)
         (eventListeners L) (ui sys)"
  by (simp add: onevent_def Let_def)

lemma run_listening_console:
  "run (consoleListeners timeOfDay) listeningTrace (initialSystem console0)
     = Some (listening connectedConsole)"
  by (simp add: listeningTrace_def listening_def connectedConsole_def console0_def
      initialSystem_def initialState_def initialNet_def consoleListeners_def connect_begin_def
      connect_resolved_def setStatus_def statusListener_def subscribeMemoryEvents_def Let_def
      showInt_def showNat.simps)

lemma delivers_unparsableEvent: "delivers unparsableEvent (listening u)"
  by (simp add: delivers_def listening_def matchFilter_def memoryFilter_def unparsableEvent_def
      dValues_def List.map_filter_simps)

text \<open>
  Claim C3 as stated fails. With a connection and a memory subscription open, an event
  that matches the filter of the subscription, so that it is delivered, and whose content
  is not JSON is counted and gets its entry in the log.
\<close>

theorem malformed_event_applied_counterexample:
  "run (consoleListeners timeOfDay) listeningTrace (initialSystem console0)
     = Some (listening connectedConsole)
   \<and> enabled (Deliver unparsableEvent) (listening connectedConsole)
   \<and> content unparsableEvent = ''{not json''
   \<and> eventCount (state (step (consoleListeners timeOfDay) (Deliver unparsableEvent)
        (listening connectedConsole))) = 1
   \<and> logEntries (ui (step (consoleListeners timeOfDay) (Deliver unparsableEvent)
        (listening connectedConsole))) = [logEntryFor timeOfDay unparsableEvent]"
proof -
  have c: "content unparsableEvent = ''{not json''"
    by (simp add: unparsableEvent_def)
  have n: "eventCount (state (onevent (consoleListeners timeOfDay) unparsableEvent
      (listening connectedConsole))) = 1"
    by (simp add: onevent_state listening_def)
  have l: "logEntries (ui (onevent (consoleListeners timeOfDay) unparsableEvent
      (listening connectedConsole))) = [logEntryFor timeOfDay unparsableEvent]"
    by (simp add: onevent_console_log listening_def connectedConsole_def console0_def)
  from run_listening_console delivers_unparsableEvent [of connectedConsole] c n l
  show ?thesis
    by simp
qed

lemma onevent_console_count:
  "eventCountEl (ui (onevent (consoleListeners fmt) ev sys)) = showNat (eventCount (state sys) + 1)"
  by (simp add: onevent_def consoleListeners_def eventListener_def Let_def)

lemma onevent_console_hd:
  "hd (logEntries (ui (onevent (consoleListeners fmt) ev sys))) = logEntryFor fmt ev"
proof -
  have "take 200 (logEntryFor fmt ev # logEntries (ui sys))
      = logEntryFor fmt ev # take 199 (logEntries (ui sys))"
    by simp
  then show ?thesis
    by (simp only: onevent_console_log list.sel)
qed

text \<open>
  Claim C3, amended. Every event handed to \<open>onevent\<close>, malformed or not, is counted once
  and given to each registered listener, in the order of registration; nothing is checked
  and nothing is dropped. The listener of the console shows the new count and puts the
  entry of the event first in the log.
\<close>

theorem every_event_counted_and_forwarded:
  "eventCount (state (onevent L ev sys)) = eventCount (state sys) + 1
   \<and> net (onevent L ev sys) = net sys
   \<and> ui (onevent L ev sys)
       = fold (\<lambda>fn. fn ((state sys)\<lparr>eventCount := eventCount (state sys) + 1\<rparr>) ev)
           (eventListeners L) (ui sys)
   \<and> eventCountEl (ui (onevent (consoleListeners fmt) ev csys))
       = showNat (eventCount (state csys) + 1)
   \<and> hd (logEntries (ui (onevent (consoleListeners fmt) ev csys))) = logEntryFor fmt ev"
proof (intro conjI)
  show "eventCount (state (onevent L ev sys)) = eventCount (state sys) + 1"
    by (simp add: onevent_state)
  show "net (onevent L ev sys) = net sys"
    by (rule onevent_net)
  show "ui (onevent L ev sys)
       = fold (\<lambda>fn. fn ((state sys)\<lparr>eventCount := eventCount (state sys) + 1\<rparr>) ev)
           (eventListeners L) (ui sys)"
    by (rule onevent_ui)
  show "eventCountEl (ui (onevent (consoleListeners fmt) ev csys))
       = showNat (eventCount (state csys) + 1)"
    by (rule onevent_console_count)
  show "hd (logEntries (ui (onevent (consoleListeners fmt) ev csys))) = logEntryFor fmt ev"
    by (rule onevent_console_hd)
qed

theorem every_event_counted_and_forwarded_witness:
  "enabled (Deliver unparsableEvent) (listening connectedConsole)
   \<and> eventCount (state (onevent (consoleListeners timeOfDay) unparsableEvent
        (listening connectedConsole))) = 1
   \<and> eventCountEl (ui (onevent (consoleListeners timeOfDay) unparsableEvent
        (listening connectedConsole))) = ''1''
   \<and> hd (logEntries (ui (onevent (consoleListeners timeOfDay) unparsableEvent
        (listening connectedConsole))))
       = \<lparr>className = ''log-entry'',
          innerHTML = ''<strong>30078</strong> 00... <em>00:00:00</em>''\<rparr>"
proof -
  note th = every_event_counted_and_forwarded [of "consoleListeners timeOfDay" unparsableEvent
      "listening connectedConsole" timeOfDay "listening connectedConsole"]
  have d: "enabled (Deliver unparsableEvent) (listening connectedConsole)"
    by (simp add: delivers_unparsableEvent)
  have c: "eventCount (state (listening connectedConsole)) = 0"
    by (simp add: listening_def)
  have n: "showNat (0 + 1) = ''1''"
    by (simp add: showNat.simps)
  have e: "logEntryFor timeOfDay unparsableEvent
      = \<lparr>className = ''log-entry'', innerHTML = ''<strong>30078</strong> 00... <em>00:00:00</em>''\<rparr>"
    by (simp add: logEntryFor_def unparsableEvent_def showInt_def showNat.simps timeOfDay_def
        escapeHtml_def replaceAll_def dquote_def)
  from th [THEN conjunct1] c
  have a1: "eventCount (state (onevent (consoleListeners timeOfDay) unparsableEvent
      (listening connectedConsole))) = 1"
    by simp
  from th [THEN conjunct2, THEN conjunct2, THEN conjunct2, THEN conjunct1] c n
  have a2: "eventCountEl (ui (onevent (consoleListeners timeOfDay) unparsableEvent
      (listening connectedConsole))) = ''1''"
    by simp
  from th [THEN conjunct2, THEN conjunct2, THEN conjunct2, THEN conjunct2] e
  have a3: "hd (logEntries (ui (onevent (consoleListeners timeOfDay) unparsableEvent
      (listening connectedConsole))))
       = \<lparr>className = ''log-entry'',
          innerHTML = ''<strong>30078</strong> 00... <em>00:00:00</em>''\<rparr>"
    by simp
  from d a1 a2 a3 show ?thesis
    by (intro conjI)
qed

section \<open>Connecting\<close>

lemma setStatus_state: "state (setStatus L s sys) = (state sys)\<lparr>status := s\<rparr>"
  by (simp add: setStatus_def Let_def)

lemma setStatus_net: "net (setStatus L s sys) = net sys"
  by (simp add: setStatus_def Let_def)

lemma connect_rejected_thrown: "thrown (connect L u (Some err) sys) = Some err"
  by (simp add: connect_def connect_rejected_def split: prod.splits)

lemma connect_rejected_status:
  "status (state (final (connect L u (Some err) sys))) = disconnected"
  by (simp add: connect_def connect_rejected_def setStatus_state split: prod.splits)

lemma btnConnect_click_failure:
  assumes "trim v \<noteq> []"
  shows "relayInfo (ui (btnConnect_click L v (Some err) sys)) = ''Connection failed: '' @ errorText err"
    and "status (state (btnConnect_click L v (Some err) sys)) = disconnected"
  using assms
  by (simp_all add: btnConnect_click_def Let_def connect_def connect_rejected_def setStatus_state
      split: prod.splits)

text \<open>
  Claim C4 as stated fails: a connection attempt that fails is thrown to the caller of
  \<open>connect\<close>.
\<close>

theorem connect_failure_surfaced_counterexample:
  "thrown (connect (consoleListeners timeOfDay) ''wss://relay.example'' (Some connectionError)
      (initialSystem console0)) = Some connectionError"
  by (rule connect_rejected_thrown)

text \<open>
  Claim C4, amended. When a connection attempt fails, \<open>connect\<close> sets the status to
  \<open>disconnected\<close> and throws the failure to its caller; the handler of the connect button
  catches it and shows \<open>Connection failed:\<close> and the error.
\<close>

theorem connect_failure_rethrown:
  "thrown (connect L u (Some err) sys) = Some err
   \<and> status (state (final (connect L u (Some err) sys))) = disconnected
   \<and> (trim v \<noteq> [] \<longrightarrow>
        relayInfo (ui (btnConnect_click CL v (Some err) csys)) = ''Connection failed: '' @ errorText err
        \<and> status (state (btnConnect_click CL v (Some err) csys)) = disconnected)"
  by (simp add: connect_rejected_thrown connect_rejected_status btnConnect_click_failure)

theorem connect_failure_rethrown_witness:
  "trim '' wss://relay.example'' \<noteq> []
   \<and> thrown (connect (consoleListeners timeOfDay) ''wss://relay.example'' (Some connectionError)
        (initialSystem console0)) = Some connectionError
   \<and> relayInfo (ui (btnConnect_click (consoleListeners timeOfDay) '' wss://relay.example''
        (Some connectionError) (initialSystem console0)))
       = ''Connection failed: Error: connection timed out''
   \<and> status (state (btnConnect_click (consoleListeners timeOfDay) '' wss://relay.example''
        (Some connectionError) (initialSystem console0))) = disconnected"
proof -
  have t: "trim '' wss://relay.example'' \<noteq> []"
    by (simp add: trim_def isWhiteSpace_def)
  have e: "''Connection failed: '' @ errorText connectionError
      = ''Connection failed: Error: connection timed out''"
    by (simp add: connectionError_def)
  note th = connect_failure_rethrown [of "consoleListeners timeOfDay" "''wss://relay.example''"
      connectionError "initialSystem console0" "'' wss://relay.example''" "consoleListeners timeOfDay"
      "initialSystem console0"]
  from th t e show ?thesis
    by simp
qed

section \<open>Reachable states of the relay module\<close>

lemma closeSubscriptions_distinct:
  "distinct (map fst subs) \<Longrightarrow> closeSubscriptions subs closes = ([], closes @ map snd subs)"
proof (induction subs arbitrary: closes)
  case Nil
  then show ?case by simp
next
  case (Cons p rest)
  obtain k sub where p: "p = (k, sub)"
    by (cases p)
  from Cons.prems p have k: "k \<notin> fst ` set rest" and d: "distinct (map fst rest)"
    by auto
  from k have "AList.delete k ((k, sub) # rest) = rest"
    by simp
  with Cons.IH [OF d, of "closes @ [sub]"] p show ?case
    by simp
qed

lemma distinct_snd_update:
  "distinct (map snd al) \<Longrightarrow> v \<notin> snd ` set al \<Longrightarrow> distinct (map snd (AList.update k v al))"
proof (induction al)
  case Nil
  then show ?case by simp
next
  case (Cons p al)
  have "snd ` set (AList.update k v al) \<subseteq> insert v (snd ` set al)"
    by (induction al) auto
  with Cons show ?case
    by (cases p) auto
qed

lemma snd_set_update: "snd ` set (AList.update k v al) \<subseteq> insert v (snd ` set al)"
  by (induction al) auto

lemma distinct_snd_delete: "distinct (map snd al) \<Longrightarrow> distinct (map snd (AList.delete k al))"
  by (simp add: AList.delete_eq distinct_map_filter)

lemma snd_set_delete: "snd ` set (AList.delete k al) \<subseteq> snd ` set al"
  by (auto simp: AList.delete_eq)

lemma deleted_value_gone:
  assumes "distinct (map snd al)" and "map_of al k = Some v"
  shows "v \<notin> snd ` set (AList.delete k al)"
proof
  assume "v \<in> snd ` set (AList.delete k al)"
  then obtain k' where k': "(k', v) \<in> set al" and ne: "k' \<noteq> k"
    by (auto simp: AList.delete_eq)
  from assms(2) have kv: "(k, v) \<in> set al"
    by (rule map_of_SomeD)
  from assms(1) have "inj_on snd (set al)"
    by (simp add: distinct_map)
  moreover have "snd (k', v) = snd (k, v)"
    by simp
  ultimately have "(k', v) = (k, v)"
    using k' kv by (rule inj_onD)
  with ne show False by simp
qed

lemma wellFormed_initial: "wellFormed (initialSystem u)"
  by (simp add: wellFormed_def initialSystem_def initialState_def initialNet_def)

lemma wellFormed_connect_begin: "wellFormed sys \<Longrightarrow> wellFormed (fst (connect_begin L u sys))"
  by (simp add: wellFormed_def connect_begin_def Let_def setStatus_state setStatus_net closeRelay_def
      split: option.splits)

lemma wellFormed_connect_resolved: "wellFormed sys \<Longrightarrow> wellFormed (connect_resolved L r sys)"
  by (simp add: wellFormed_def connect_resolved_def setStatus_state setStatus_net)

lemma wellFormed_connect_rejected:
  "wellFormed sys \<Longrightarrow> wellFormed (final (connect_rejected L r err sys))"
  by (simp add: wellFormed_def connect_rejected_def setStatus_state setStatus_net)

lemma wellFormed_disconnect: "wellFormed sys \<Longrightarrow> wellFormed (disconnect L sys)"
  by (auto simp: wellFormed_def disconnect_def setStatus_state setStatus_net closeRelay_def
      closeSubscriptions_distinct split: option.splits)

lemma wellFormed_onevent: "wellFormed sys \<Longrightarrow> wellFormed (onevent L ev sys)"
  by (simp add: wellFormed_def onevent_def Let_def)

lemma wellFormed_subscribe:
  assumes "wellFormed sys"
  shows "wellFormed (fst (subscribeMemoryEvents now sys))"
proof (cases "relay (state sys)")
  case None
  with assms show ?thesis
    by (simp add: subscribeMemoryEvents_def)
next
  case (Some r)
  let ?subs = "subscriptions (state sys)"
  let ?k = "''snow-mem-'' @ showInt now"
  let ?v = "subsCreated (net sys)"
  from assms have fresh: "?v \<notin> snd ` set ?subs"
    by (auto simp: wellFormed_def)
  from assms have d: "distinct (map snd ?subs)" and dk: "distinct (map fst ?subs)"
    by (simp_all add: wellFormed_def)
  have 1: "distinct (map fst (AList.update ?k ?v ?subs))"
    using dk by (rule distinct_update)
  have 2: "distinct (map snd (AList.update ?k ?v ?subs))"
    using d fresh by (rule distinct_snd_update)
  have 3: "\<forall>sub \<in> set (map snd (AList.update ?k ?v ?subs)).
      sub < ?v + 1 \<and> sub \<notin> set (subCloses (net sys))"
  proof
    fix sub
    assume "sub \<in> set (map snd (AList.update ?k ?v ?subs))"
    with snd_set_update [of ?k ?v ?subs] have "sub = ?v \<or> sub \<in> snd ` set ?subs"
      by auto
    with assms show "sub < ?v + 1 \<and> sub \<notin> set (subCloses (net sys))"
      by (auto simp: wellFormed_def)
  qed
  from assms have 4: "\<forall>sub \<in> set (subCloses (net sys)). sub < ?v + 1"
    by (auto simp: wellFormed_def)
  from assms have 5: "\<forall>req \<in> set (subRequests (net sys) @ [(r, ?v, [memoryFilter])]).
      snd (snd req) = [memoryFilter]"
    by (auto simp: wellFormed_def)
  from Some 1 2 3 4 5 show ?thesis
    by (simp add: wellFormed_def subscribeMemoryEvents_def Let_def)
qed

lemma wellFormed_unsubscribe:
  assumes "wellFormed sys"
  shows "wellFormed (unsubscribe subId sys)"
proof (cases "map_of (subscriptions (state sys)) subId")
  case None
  with assms show ?thesis
    by (simp add: unsubscribe_def)
next
  case (Some v)
  let ?subs = "subscriptions (state sys)"
  from assms have d: "distinct (map snd ?subs)" and dk: "distinct (map fst ?subs)"
    by (simp_all add: wellFormed_def)
  from Some have "(subId, v) \<in> set ?subs"
    by (rule map_of_SomeD)
  then have r: "relay (state sys) \<noteq> None"
    using assms by (auto simp: wellFormed_def)
  have 1: "distinct (map fst (AList.delete subId ?subs))"
    using dk by (rule distinct_delete)
  have 2: "distinct (map snd (AList.delete subId ?subs))"
    using d by (rule distinct_snd_delete)
  have gone: "v \<notin> snd ` set (AList.delete subId ?subs)"
    using d Some by (rule deleted_value_gone)
  have 3: "\<forall>sub \<in> set (map snd (AList.delete subId ?subs)).
      sub < subsCreated (net sys) \<and> sub \<notin> set (subCloses (net sys) @ [v])"
  proof
    fix sub
    assume a: "sub \<in> set (map snd (AList.delete subId ?subs))"
    with snd_set_delete [of subId ?subs] have "sub \<in> snd ` set ?subs"
      by auto
    with assms have "sub < subsCreated (net sys) \<and> sub \<notin> set (subCloses (net sys))"
      by (auto simp: wellFormed_def)
    moreover from a gone have "sub \<noteq> v"
      by auto
    ultimately show "sub < subsCreated (net sys) \<and> sub \<notin> set (subCloses (net sys) @ [v])"
      by simp
  qed
  from \<open>(subId, v) \<in> set ?subs\<close> assms have "v < subsCreated (net sys)"
    by (force simp: wellFormed_def)
  with assms have 4: "\<forall>sub \<in> set (subCloses (net sys) @ [v]). sub < subsCreated (net sys)"
    by (auto simp: wellFormed_def)
  from assms have 5: "\<forall>req \<in> set (subRequests (net sys)). snd (snd req) = [memoryFilter]"
    by (simp add: wellFormed_def)
  from Some r 1 2 3 4 5 show ?thesis
    by (auto simp: wellFormed_def unsubscribe_def)
qed

lemma wellFormed_step: "wellFormed sys \<Longrightarrow> wellFormed (step L a sys)"
  by (cases a)
    (simp_all add: wellFormed_connect_begin wellFormed_connect_resolved wellFormed_connect_rejected
      wellFormed_disconnect wellFormed_subscribe wellFormed_unsubscribe wellFormed_onevent)

lemma reachable_wellFormed: "reachable L u sys \<Longrightarrow> wellFormed sys"
  by (induction rule: reachable.induct) (simp_all add: wellFormed_initial wellFormed_step)

lemma run_reachable: "reachable L u sys \<Longrightarrow> run L as sys = Some sys' \<Longrightarrow> reachable L u sys'"
proof (induction as arbitrary: sys)
  case Nil
  then show ?case by simp
next
  case (Cons a as)
  from Cons.prems(2) have e: "enabled a sys" and r: "run L as (step L a sys) = Some sys'"
    by (simp_all split: if_splits)
  from Cons.prems(1) e have "reachable L u (step L a sys)"
    by (rule reachable_step)
  then show ?case
    using r by (rule Cons.IH)
qed


section \<open>Disconnecting\<close>

lemma count_list_distinct: "distinct xs \<Longrightarrow> x \<in> set xs \<Longrightarrow> count_list xs x = 1"
  by (induction xs) (auto simp: count_list_0_iff)

lemma disconnect_state:
  "wellFormed sys \<Longrightarrow>
     state (disconnect L sys) = (state sys)\<lparr>subscriptions := [], relay := None, status := disconnected\<rparr>"
  by (cases "relay (state sys)")
    (simp_all add: disconnect_def setStatus_state wellFormed_def closeSubscriptions_distinct)

lemma disconnect_subCloses:
  "wellFormed sys \<Longrightarrow>
     subCloses (net (disconnect L sys)) = subCloses (net sys) @ map snd (subscriptions (state sys))"
  by (cases "relay (state sys)")
    (simp_all add: disconnect_def setStatus_net wellFormed_def closeSubscriptions_distinct
      closeRelay_def)

lemma disconnect_again:
  "relay (state sys) = None \<Longrightarrow> status (state sys) = disconnected \<Longrightarrow>
     state (disconnect L sys) = state sys \<and> net (disconnect L sys) = net sys"
  by (simp add: disconnect_def setStatus_state setStatus_net)

lemma disconnect_closed_once:
  assumes "wellFormed sys" and "sub \<in> set (map snd (subscriptions (state sys)))"
  shows "count_list (subCloses (net (disconnect L sys))) sub = 1"
proof -
  from assms have "sub \<notin> set (subCloses (net sys))"
    by (auto simp: wellFormed_def)
  then have "count_list (subCloses (net sys)) sub = 0"
    by (simp add: count_list_0_iff)
  moreover from assms have "count_list (map snd (subscriptions (state sys))) sub = 1"
    by (intro count_list_distinct) (simp_all add: wellFormed_def)
  ultimately show ?thesis
    using assms(1) by (simp add: disconnect_subCloses)
qed

text \<open>
  What \<open>disconnect\<close> does in every state the module can reach: the relay is \<open>null\<close>, the
  subscription map is empty, \<^verbatim>\<open>sub.close()\<close> has been called exactly once, over the whole
  run, on every subscription that the map held, and the status is \<open>disconnected\<close>. A second
  \<open>disconnect\<close> changes neither the state of the module nor the calls made to
  nostr-tools.
\<close>

lemma disconnect_closes_held_subscriptions:
  assumes "reachable L u sys"
  shows "relay (state (disconnect L sys)) = None
    \<and> subscriptions (state (disconnect L sys)) = []
    \<and> status (state (disconnect L sys)) = disconnected
    \<and> (\<forall>sub \<in> set (map snd (subscriptions (state sys))).
          count_list (subCloses (net (disconnect L sys))) sub = 1)
    \<and> state (disconnect L (disconnect L sys)) = state (disconnect L sys)
    \<and> net (disconnect L (disconnect L sys)) = net (disconnect L sys)"
proof -
  from assms have w: "wellFormed sys"
    by (rule reachable_wellFormed)
  then have s: "state (disconnect L sys)
      = (state sys)\<lparr>subscriptions := [], relay := None, status := disconnected\<rparr>"
    by (rule disconnect_state)
  then have "relay (state (disconnect L sys)) = None"
    and "status (state (disconnect L sys)) = disconnected"
    by simp_all
  then have again: "state (disconnect L (disconnect L sys)) = state (disconnect L sys)
      \<and> net (disconnect L (disconnect L sys)) = net (disconnect L sys)"
    by (rule disconnect_again)
  from w have once: "\<forall>sub \<in> set (map snd (subscriptions (state sys))).
      count_list (subCloses (net (disconnect L sys))) sub = 1"
    by (blast intro: disconnect_closed_once)
  from s again once show ?thesis
    by simp
qed

text \<open>
  Claim C9 fails on the code. The id of a subscription is the time in milliseconds, so a
  second \<^verbatim>\<open>subscribeMemoryEvents()\<close> in the same millisecond replaces the first
  subscription in the map. The first stays requested and open, and \<open>disconnect\<close>, whose
  loop goes over the map, never calls \<^verbatim>\<open>close()\<close> on it.
\<close>

theorem colliding_subscription_never_closed:
  "map_option (\<lambda>s. (subscriptions (state s), map (\<lambda>req. fst (snd req)) (subRequests (net s)),
        subCloses (net s)))
      (run noListeners (take 4 collidingTrace) (initialSystem ()))
     = Some ([(''snow-mem-5'', 1)], [0, 1], [])
   \<and> map_option (\<lambda>s. (relay (state s), subscriptions (state s),
        map (\<lambda>req. fst (snd req)) (subRequests (net s)), subCloses (net s),
        count_list (subCloses (net s)) 0))
      (run noListeners collidingTrace (initialSystem ()))
     = Some (None, [], [0, 1], [1], 0)"
  by (simp add: collidingTrace_def initialSystem_def initialState_def initialNet_def
      noListeners_def connect_begin_def connect_resolved_def disconnect_def setStatus_def
      subscribeMemoryEvents_def closeRelay_def Let_def showInt_def showNat.simps)

section \<open>The filter of a memory subscription\<close>

lemma subscribe_request:
  "relay (state sys) = Some r \<Longrightarrow>
     subRequests (net (fst (subscribeMemoryEvents now sys)))
       = subRequests (net sys) @ [(r, subsCreated (net sys), [memoryFilter])]"
  by (simp add: subscribeMemoryEvents_def Let_def)

lemma subscribe_without_relay:
  "relay (state sys) = None \<Longrightarrow> subscribeMemoryEvents now sys = (sys, None)"
  by (simp add: subscribeMemoryEvents_def)

lemma memoryFilter_match:
  assumes "matchFilter memoryFilter ev"
  shows "kind ev = 30078 \<and> ''snow:memory:'' \<in> set (dValues ev)"
  using assms by (auto simp: matchFilter_def memoryFilter_def list_ex_iff)

lemma reachable_requests:
  assumes "reachable L u sys" and "req \<in> set (subRequests (net sys))"
  shows "snd (snd req) = [memoryFilter]"
proof -
  from assms(1) have "wellFormed sys"
    by (rule reachable_wellFormed)
  with assms(2) show ?thesis
    by (simp add: wellFormed_def)
qed

lemma reachable_delivers:
  assumes "reachable L u sys" and "delivers ev sys"
  shows "kind ev = 30078 \<and> ''snow:memory:'' \<in> set (dValues ev)"
proof -
  from assms(2) obtain req where r: "req \<in> set (subRequests (net sys))"
    and m: "list_ex (\<lambda>f. matchFilter f ev) (snd (snd req))"
    by (auto simp: delivers_def list_ex_iff)
  from assms(1) r have "snd (snd req) = [memoryFilter]"
    by (rule reachable_requests)
  with m have "matchFilter memoryFilter ev"
    by simp
  then show ?thesis
    by (rule memoryFilter_match)
qed

lemma single_address_in_namespace:
  assumes "length (dValues ev) = 1" and "''snow:memory:'' \<in> set (dValues ev)"
  shows "inMemoryNamespace ev"
proof -
  from assms(1) obtain v where v: "dValues ev = [v]"
    by (cases "dValues ev") auto
  with assms(2) have "v = ''snow:memory:''"
    by simp
  with v show ?thesis
    by (simp add: inMemoryNamespace_def address_def)
qed

lemma recording_onevent_ui: "ui (onevent recordingListeners ev sys) = ui sys @ [ev]"
  by (simp add: onevent_def recordingListeners_def Let_def)

lemma recording_ui_unchanged:
  "ui (fst (connect_begin recordingListeners x sys)) = ui sys"
  "ui (connect_resolved recordingListeners r sys) = ui sys"
  "ui (final (connect_rejected recordingListeners r err sys)) = ui sys"
  "ui (disconnect recordingListeners sys) = ui sys"
  "ui (fst (subscribeMemoryEvents now sys)) = ui sys"
  "ui (unsubscribe subId sys) = ui sys"
  by (simp_all add: recordingListeners_def connect_begin_def connect_resolved_def
      connect_rejected_def disconnect_def setStatus_def subscribeMemoryEvents_def unsubscribe_def
      Let_def split: option.splits prod.splits)

lemma recorded_events:
  assumes "reachable recordingListeners [] sys" and "ev \<in> set (ui sys)"
  shows "kind ev = 30078 \<and> ''snow:memory:'' \<in> set (dValues ev)"
  using assms
proof (induction rule: reachable.induct)
  case reachable_init
  then show ?case
    by (simp add: initialSystem_def)
next
  case (reachable_step sys a)
  show ?case
  proof (cases a)
    case (Deliver e)
    with reachable_step.prems have "ev \<in> set (ui sys) \<or> ev = e"
      by (auto simp: recording_onevent_ui)
    then show ?thesis
    proof
      assume "ev \<in> set (ui sys)"
      then show ?thesis
        by (rule reachable_step.IH)
    next
      assume "ev = e"
      with Deliver reachable_step.hyps(2) have "delivers ev sys"
        by simp
      with reachable_step.hyps(1) show ?thesis
        by (rule reachable_delivers)
    qed
  qed (use reachable_step in \<open>simp_all add: recording_ui_unchanged\<close>)
qed

lemma run_listening_recording:
  "run recordingListeners listeningTrace (initialSystem []) = Some (listening [])"
  by (simp add: listeningTrace_def listening_def initialSystem_def initialState_def
      initialNet_def recordingListeners_def connect_begin_def connect_resolved_def setStatus_def
      subscribeMemoryEvents_def Let_def showInt_def showNat.simps)

lemma reachable_listening: "reachable recordingListeners [] (listening [])"
proof -
  have "reachable recordingListeners [] (initialSystem [])"
    by (rule reachable_init)
  then show ?thesis
    using run_listening_recording by (rule run_reachable)
qed

lemma delivers_twoAddressEvent: "delivers twoAddressEvent (listening u)"
  by (simp add: delivers_def listening_def matchFilter_def memoryFilter_def twoAddressEvent_def
      dValues_def List.map_filter_simps)

text \<open>
  Claim C6 as stated fails in its last part. The filter asks for events one of whose
  \<open>d\<close> tags has the value \<open>snow:memory:\<close>; an event with that tag second and another
  address first matches it, is delivered and is given to the listeners, and its address is
  outside the namespace.
\<close>

theorem address_outside_namespace_delivered_counterexample:
  "run recordingListeners listeningTrace (initialSystem []) = Some (listening [])
   \<and> enabled (Deliver twoAddressEvent) (listening [])
   \<and> ui (step recordingListeners (Deliver twoAddressEvent) (listening [])) = [twoAddressEvent]
   \<and> address twoAddressEvent = Some ''other:thing''
   \<and> \<not> inMemoryNamespace twoAddressEvent"
proof -
  have u: "ui (step recordingListeners (Deliver twoAddressEvent) (listening [])) = [twoAddressEvent]"
    by (simp add: recording_onevent_ui listening_def)
  have a: "address twoAddressEvent = Some ''other:thing''"
    by (simp add: address_def dValues_def twoAddressEvent_def List.map_filter_simps)
  then have n: "\<not> inMemoryNamespace twoAddressEvent"
    by (simp add: inMemoryNamespace_def)
  from run_listening_recording delivers_twoAddressEvent [of "[]"] u a n show ?thesis
    by simp
qed

text \<open>
  Claim C6, amended. \<open>subscribeMemoryEvents\<close> asks the relay for one filter, kind 30078
  with the \<open>d\<close> value \<open>snow:memory:\<close>, and asks for nothing without a relay. In every
  state the module can reach, an event that is delivered, and so every event that a
  registered listener is ever given, has the kind 30078 and a \<open>d\<close> tag of exactly that
  value; when it has one \<open>d\<close> tag only, its address is in the namespace \<open>snow:memory:\<close>.
\<close>

theorem memory_subscription_filter:
  "(relay (state sys) = Some r \<longrightarrow>
      subRequests (net (fst (subscribeMemoryEvents now sys)))
        = subRequests (net sys) @ [(r, subsCreated (net sys), [memoryFilter])])
   \<and> (relay (state sys) = None \<longrightarrow> subscribeMemoryEvents now sys = (sys, None))
   \<and> (reachable L u rsys \<and> enabled (Deliver ev) rsys \<longrightarrow>
        kind ev = 30078 \<and> ''snow:memory:'' \<in> set (dValues ev)
        \<and> (length (dValues ev) = 1 \<longrightarrow> inMemoryNamespace ev))
   \<and> (reachable recordingListeners [] lsys \<and> ev' \<in> set (ui lsys) \<longrightarrow>
        kind ev' = 30078 \<and> ''snow:memory:'' \<in> set (dValues ev')
        \<and> (length (dValues ev') = 1 \<longrightarrow> inMemoryNamespace ev'))"
proof (intro conjI impI)
  assume "relay (state sys) = Some r"
  then show "subRequests (net (fst (subscribeMemoryEvents now sys)))
        = subRequests (net sys) @ [(r, subsCreated (net sys), [memoryFilter])]"
    by (rule subscribe_request)
next
  assume "relay (state sys) = None"
  then show "subscribeMemoryEvents now sys = (sys, None)"
    by (rule subscribe_without_relay)
next
  assume a: "reachable L u rsys \<and> enabled (Deliver ev) rsys"
  then have "reachable L u rsys" and "delivers ev rsys"
    by simp_all
  then have k: "kind ev = 30078 \<and> ''snow:memory:'' \<in> set (dValues ev)"
    by (rule reachable_delivers)
  from k show "kind ev = 30078" ..
  from k show "''snow:memory:'' \<in> set (dValues ev)" ..
  assume "length (dValues ev) = 1"
  then show "inMemoryNamespace ev"
    using k by (intro single_address_in_namespace) simp_all
next
  assume a: "reachable recordingListeners [] lsys \<and> ev' \<in> set (ui lsys)"
  then have "reachable recordingListeners [] lsys" and "ev' \<in> set (ui lsys)"
    by simp_all
  then have k: "kind ev' = 30078 \<and> ''snow:memory:'' \<in> set (dValues ev')"
    by (rule recorded_events)
  from k show "kind ev' = 30078" ..
  from k show "''snow:memory:'' \<in> set (dValues ev')" ..
  assume "length (dValues ev') = 1"
  then show "inMemoryNamespace ev'"
    using k by (intro single_address_in_namespace) simp_all
qed

theorem memory_subscription_filter_witness:
  "relay (state (listening [])) = Some 0
   \<and> subRequests (net (fst (subscribeMemoryEvents 3 (listening []))))
       = [(0, 0, [memoryFilter]), (0, 1, [memoryFilter])]
   \<and> relay (state (initialSystem [])) = None
   \<and> subscribeMemoryEvents 3 (initialSystem []) = (initialSystem [], None)
   \<and> reachable recordingListeners [] (listening [])
   \<and> enabled (Deliver unparsableEvent) (listening [])
   \<and> kind unparsableEvent = 30078 \<and> length (dValues unparsableEvent) = 1
   \<and> inMemoryNamespace unparsableEvent
   \<and> reachable recordingListeners [] (step recordingListeners (Deliver unparsableEvent) (listening []))
   \<and> unparsableEvent \<in> set (ui (step recordingListeners (Deliver unparsableEvent) (listening [])))"
proof -
  let ?after = "step recordingListeners (Deliver unparsableEvent) (listening [])"
  note r = reachable_listening
  have e: "enabled (Deliver unparsableEvent) (listening [])"
    by (simp add: delivers_unparsableEvent)
  from r e have r': "reachable recordingListeners [] ?after"
    by (rule reachable_step)
  have i: "unparsableEvent \<in> set (ui ?after)"
    by (simp add: recording_onevent_ui)
  have s: "relay (state (listening [])) = Some 0"
    and q: "subRequests (net (listening [])) = [(0, 0, [memoryFilter])]"
    and n: "subsCreated (net (listening [])) = 1"
    by (simp_all add: listening_def)
  have z: "relay (state (initialSystem [])) = None"
    by (simp add: initialSystem_def initialState_def)
  have l: "length (dValues unparsableEvent) = 1"
    by (simp add: dValues_def unparsableEvent_def List.map_filter_simps)
  note th = memory_subscription_filter [of "listening []" 0 3 recordingListeners "[]"
      "listening []" unparsableEvent ?after unparsableEvent]
  note th0 = memory_subscription_filter [of "initialSystem []" 0 3 recordingListeners "[]"
      "listening []" unparsableEvent ?after unparsableEvent]
  have a: "subRequests (net (fst (subscribeMemoryEvents 3 (listening []))))
       = [(0, 0, [memoryFilter]), (0, 1, [memoryFilter])]"
    using th [THEN conjunct1, THEN mp, OF s] unfolding q n by simp
  from th0 [THEN conjunct2, THEN conjunct1] z
  have a0: "subscribeMemoryEvents 3 (initialSystem []) = (initialSystem [], None)"
    by (rule mp)
  from th [THEN conjunct2, THEN conjunct2, THEN conjunct1] r e l
  have k: "kind unparsableEvent = 30078 \<and> inMemoryNamespace unparsableEvent"
    by blast
  from th [THEN conjunct2, THEN conjunct2, THEN conjunct2] r' i l
  have k': "kind unparsableEvent = 30078 \<and> inMemoryNamespace unparsableEvent"
    by blast
  from s a z a0 r e k l r' i show ?thesis
    by blast
qed

section \<open>Two connections at once\<close>

text \<open>
  Claim C5 fails on the code. \<open>connect\<close> closes the relay it holds, but an attempt that
  is still awaited is not held yet: after connect, disconnect, connect, with both attempts
  succeeding afterwards, two connections are open, and the first was never closed. Each
  button is enabled when it is clicked.
\<close>

theorem overlapping_connects_leave_two_connections:
  "map_option (\<lambda>s. btnDisconnect_disabled (ui s))
      (run (consoleListeners timeOfDay) (take 1 overlappingTrace) (initialSystem console0)) = Some False
   \<and> map_option (\<lambda>s. (btnConnect_disabled (ui s), pending (net s)))
      (run (consoleListeners timeOfDay) (take 2 overlappingTrace) (initialSystem console0))
       = Some (False, [0])
   \<and> map_option (\<lambda>s. (relay (state s), openConns (net s), relayCloses (net s)))
      (run (consoleListeners timeOfDay) overlappingTrace (initialSystem console0))
       = Some (Some 1, [0, 1], [])"
  by (simp add: overlappingTrace_def initialSystem_def initialState_def initialNet_def
      consoleListeners_def connect_begin_def connect_resolved_def disconnect_def setStatus_def
      statusListener_def Let_def console0_def)

section \<open>Ranking\<close>

lemma rankLess_irrefl: "\<not> rankLess a a"
  by (cases a) simp_all

lemma rankLess_trans: "rankLess a b \<Longrightarrow> rankLess b c \<Longrightarrow> rankLess a c"
  by (cases a; cases b; cases c) simp_all

lemma rankLess_asym: "rankLess a b \<Longrightarrow> \<not> rankLess b a"
  by (cases a; cases b) simp_all

lemma rankLess_total: "rankLess a b \<or> a = b \<or> rankLess b a"
  by (cases a; cases b) auto

lemma ranksBefore_total: "ranksBefore a b \<or> ranksBefore b a"
  using rankLess_total [of "sourceRank a" "sourceRank b"]
    rankLess_total [of "modelTier a" "modelTier b"]
  by (auto simp: ranksBefore_def)

lemma ranksBefore_trans:
  assumes "ranksBefore a b" and "ranksBefore b c"
  shows "ranksBefore a c"
  using assms
  by (auto simp: ranksBefore_def rankLess_irrefl dest: rankLess_trans)

lemma ranksBefore_antisym:
  assumes "ranksBefore a b" and "ranksBefore b a"
  shows "effectiveScore a = effectiveScore b \<and> sourceRank a = sourceRank b
    \<and> modelTier a = modelTier b \<and> createdAt (item a) = createdAt (item b)"
  using assms
  by (auto simp: ranksBefore_def rankLess_irrefl dest: rankLess_asym)

lemma mset_insertRanked: "mset (insertRanked x ys) = add_mset x (mset ys)"
  by (induction ys) simp_all

lemma set_insertRanked: "set (insertRanked x ys) = insert x (set ys)"
  by (induction ys) auto

lemma sorted_insertRanked:
  "sorted_wrt ranksBefore ys \<Longrightarrow> sorted_wrt ranksBefore (insertRanked x ys)"
proof (induction ys)
  case Nil
  then show ?case by simp
next
  case (Cons y ys)
  show ?case
  proof (cases "ranksBefore x y")
    case True
    with Cons.prems show ?thesis
      by (auto intro: ranksBefore_trans)
  next
    case False
    with ranksBefore_total [of x y] have "ranksBefore y x"
      by simp
    with False Cons show ?thesis
      by (auto simp: set_insertRanked)
  qed
qed

lemma mset_foldr_insertRanked: "mset (foldr insertRanked xs []) = mset xs"
  by (induction xs) (simp_all add: mset_insertRanked)

lemma sorted_foldr_insertRanked: "sorted_wrt ranksBefore (foldr insertRanked xs [])"
  by (induction xs) (simp_all add: sorted_insertRanked)

lemma scoreItem_effectiveScore:
  "effectiveScore (scoreItem prefs d table x) = relevance (scoreItem prefs d table x) * trustWeight (scoreItem prefs d table x)"
  by (simp add: scoreItem_def Let_def)


lemma sorted_wrt_unique:
  assumes "sorted_wrt ranksBefore xs" and "sorted_wrt ranksBefore ys" and "mset xs = mset ys"
    and "\<forall>a \<in> set xs. \<forall>b \<in> set xs. ranksBefore a b \<and> ranksBefore b a \<longrightarrow> a = b"
  shows "xs = ys"
  using assms
proof (induction xs arbitrary: ys)
  case Nil
  then show ?case by simp
next
  case (Cons x xs)
  from Cons.prems(3) obtain y ys' where ys: "ys = y # ys'"
    by (cases ys) auto
  from Cons.prems(3) have sets: "set (x # xs) = set ys"
    by (rule mset_eq_setD)
  have xy: "x = y"
  proof (rule ccontr)
    assume ne: "x \<noteq> y"
    with sets ys have "x \<in> set ys'" and "y \<in> set xs"
      by auto
    with Cons.prems(1,2) ys have "ranksBefore y x" and "ranksBefore x y"
      by auto
    moreover from sets ys have "x \<in> set (x # xs)" and "y \<in> set (x # xs)"
      by auto
    ultimately have "x = y"
      using Cons.prems(4) by blast
    with ne show False by simp
  qed
  with Cons.prems(3) ys have m: "mset xs = mset ys'"
    by simp
  from Cons.prems(1) have s1: "sorted_wrt ranksBefore xs"
    by simp
  from Cons.prems(2) ys have s2: "sorted_wrt ranksBefore ys'"
    by simp
  from Cons.prems(4) have u: "\<forall>a \<in> set xs. \<forall>b \<in> set xs. ranksBefore a b \<and> ranksBefore b a \<longrightarrow> a = b"
    by simp
  from Cons.IH [OF s1 s2 m u] xy ys show ?case
    by simp
qed

lemma rank_memories_mset:
  "mset (rank_memories prefs d table rs) = mset (map (scoreItem prefs d table) rs)"
  by (simp add: rank_memories_def mset_foldr_insertRanked)

lemma rank_memories_sorted: "sorted_wrt ranksBefore (rank_memories prefs d table rs)"
  by (simp add: rank_memories_def sorted_foldr_insertRanked)

lemma rank_memories_scores:
  assumes "r \<in> set (rank_memories prefs d table rs)"
  shows "effectiveScore r = relevance r * trustWeight r"
proof -
  from assms have "r \<in># mset (map (scoreItem prefs d table) rs)"
    by (simp only: rank_memories_mset [symmetric] set_mset_mset)
  then obtain x where "r = scoreItem prefs d table x"
    by auto
  then show ?thesis
    by (simp add: scoreItem_effectiveScore)
qed

lemma rank_memories_order_independent:
  assumes "mset rs = mset rs'"
    and "\<forall>a \<in> set (map (scoreItem prefs d table) rs). \<forall>b \<in> set (map (scoreItem prefs d table) rs).
          ranksBefore a b \<and> ranksBefore b a \<longrightarrow> a = b"
  shows "rank_memories prefs d table rs = rank_memories prefs d table rs'"
proof (rule sorted_wrt_unique)
  show "sorted_wrt ranksBefore (rank_memories prefs d table rs)"
    by (rule rank_memories_sorted)
  show "sorted_wrt ranksBefore (rank_memories prefs d table rs')"
    by (rule rank_memories_sorted)
  from assms(1) have "mset (map (scoreItem prefs d table) rs) = mset (map (scoreItem prefs d table) rs')"
    by (metis mset_map)
  then show "mset (rank_memories prefs d table rs) = mset (rank_memories prefs d table rs')"
    by (simp add: rank_memories_mset)
  have "set (rank_memories prefs d table rs) = set (map (scoreItem prefs d table) rs)"
    by (rule mset_eq_setD) (rule rank_memories_mset)
  with assms(2) show "\<forall>a \<in> set (rank_memories prefs d table rs).
      \<forall>b \<in> set (rank_memories prefs d table rs). ranksBefore a b \<and> ranksBefore b a \<longrightarrow> a = b"
    by simp
qed

text \<open>
  Claim C1. In the list that the ranking returns, the effective score of each result is
  its relevance times the trust weight of its source; the list holds the scored inputs,
  each as often as it came in, in the order of \<open>ranksBefore\<close>: effective score descending,
  then source rank ascending with the unranked last, then model tier ascending with the
  unranked last, then creation time descending. Any two results are comparable in this
  order, and when no two distinct results tie in all four keys the ranking does not depend
  on the order in which the inputs come.
\<close>

theorem rank_memories_ordered:
  "(\<forall>r \<in> set (rank_memories prefs d table rs). effectiveScore r = relevance r * trustWeight r)
   \<and> mset (rank_memories prefs d table rs) = mset (map (scoreItem prefs d table) rs)
   \<and> sorted_wrt ranksBefore (rank_memories prefs d table rs)
   \<and> (ranksBefore a b \<or> ranksBefore b a)
   \<and> (mset rs = mset rs'
        \<and> (\<forall>a \<in> set (map (scoreItem prefs d table) rs). \<forall>b \<in> set (map (scoreItem prefs d table) rs).
              ranksBefore a b \<and> ranksBefore b a \<longrightarrow> a = b)
      \<longrightarrow> rank_memories prefs d table rs = rank_memories prefs d table rs')"
  using rank_memories_scores [of _ prefs d table rs] rank_memories_mset [of prefs d table rs]
    rank_memories_sorted [of prefs d table rs] ranksBefore_total [of a b]
    rank_memories_order_independent [of rs rs' prefs d table]
  by blast


lemma scoreItem_recordOfA:
  "scoreItem examplePrefs 0 exampleTiers (recordOfA, 1 / 2)
     = \<lparr>item = recordOfA, relevance = 1 / 2, trustWeight = 9 / 10, sourceRank = Some 0,
        modelTier = Some 4, effectiveScore = 9 / 20\<rparr>"
  by (simp add: scoreItem_def matchedPreference_def examplePrefs_def recordOfA_def
      exampleRecord_def modelTierOf_def exampleTiers_def Let_def)

lemma scoreItem_recordOfB:
  "scoreItem examplePrefs 0 exampleTiers (recordOfB, 1 / 2)
     = \<lparr>item = recordOfB, relevance = 1 / 2, trustWeight = 1 / 2, sourceRank = Some 1,
        modelTier = Some 4, effectiveScore = 1 / 4\<rparr>"
  by (simp add: scoreItem_def matchedPreference_def examplePrefs_def recordOfB_def
      exampleRecord_def modelTierOf_def exampleTiers_def Let_def)

theorem rank_memories_ordered_witness:
  "rank_memories examplePrefs 0 exampleTiers [(recordOfB, 1 / 2), (recordOfA, 1 / 2)]
     = [\<lparr>item = recordOfA, relevance = 1 / 2, trustWeight = 9 / 10, sourceRank = Some 0,
          modelTier = Some 4, effectiveScore = 9 / 20\<rparr>,
        \<lparr>item = recordOfB, relevance = 1 / 2, trustWeight = 1 / 2, sourceRank = Some 1,
          modelTier = Some 4, effectiveScore = 1 / 4\<rparr>]
   \<and> mset [(recordOfB, 1 / 2 :: rat), (recordOfA, 1 / 2)] = mset [(recordOfA, 1 / 2), (recordOfB, 1 / 2)]
   \<and> rank_memories examplePrefs 0 exampleTiers [(recordOfB, 1 / 2), (recordOfA, 1 / 2)]
       = rank_memories examplePrefs 0 exampleTiers [(recordOfA, 1 / 2), (recordOfB, 1 / 2)]
   \<and> sorted_wrt ranksBefore (rank_memories examplePrefs 0 exampleTiers [(recordOfB, 1 / 2), (recordOfA, 1 / 2)])"
proof -
  let ?a = "scoreItem examplePrefs 0 exampleTiers (recordOfA, 1 / 2)"
  let ?b = "scoreItem examplePrefs 0 exampleTiers (recordOfB, 1 / 2)"
  have ab: "ranksBefore ?a ?b" and ba: "\<not> ranksBefore ?b ?a"
    by (simp_all add: scoreItem_recordOfA scoreItem_recordOfB ranksBefore_def)
  have v: "rank_memories examplePrefs 0 exampleTiers [(recordOfB, 1 / 2), (recordOfA, 1 / 2)] = [?a, ?b]"
    using ab ba by (simp add: rank_memories_def)
  have m: "mset [(recordOfB, 1 / 2 :: rat), (recordOfA, 1 / 2)] = mset [(recordOfA, 1 / 2), (recordOfB, 1 / 2)]"
    by simp
  have u: "\<forall>a \<in> set (map (scoreItem examplePrefs 0 exampleTiers) [(recordOfB, 1 / 2), (recordOfA, 1 / 2)]).
      \<forall>b \<in> set (map (scoreItem examplePrefs 0 exampleTiers) [(recordOfB, 1 / 2), (recordOfA, 1 / 2)]).
        ranksBefore a b \<and> ranksBefore b a \<longrightarrow> a = b"
    using ba by auto
  note th = rank_memories_ordered [of examplePrefs 0 exampleTiers "[(recordOfB, 1 / 2), (recordOfA, 1 / 2)]"
      ?a ?b "[(recordOfA, 1 / 2), (recordOfB, 1 / 2)]"]
  from th m u have e: "rank_memories examplePrefs 0 exampleTiers [(recordOfB, 1 / 2), (recordOfA, 1 / 2)]
       = rank_memories examplePrefs 0 exampleTiers [(recordOfA, 1 / 2), (recordOfB, 1 / 2)]"
    by blast
  from th have s: "sorted_wrt ranksBefore
      (rank_memories examplePrefs 0 exampleTiers [(recordOfB, 1 / 2), (recordOfA, 1 / 2)])"
    by blast
  from v have v': "rank_memories examplePrefs 0 exampleTiers [(recordOfB, 1 / 2), (recordOfA, 1 / 2)]
     = [\<lparr>item = recordOfA, relevance = 1 / 2, trustWeight = 9 / 10, sourceRank = Some 0,
          modelTier = Some 4, effectiveScore = 9 / 20\<rparr>,
        \<lparr>item = recordOfB, relevance = 1 / 2, trustWeight = 1 / 2, sourceRank = Some 1,
          modelTier = Some 4, effectiveScore = 1 / 4\<rparr>]"
    by (simp only: scoreItem_recordOfA scoreItem_recordOfB)
  from v' m e s show ?thesis
    by (intro conjI)
qed

section \<open>Conflict detection\<close>

lemma disagree_sym: "disagree canon a b \<Longrightarrow> disagree canon b a"
  by (auto simp: disagree_def)

lemma disagree_irrefl: "\<not> disagree canon x x"
  by (simp add: disagree_def)

lemma isConflict_iff:
  "isConflict canon g \<longleftrightarrow> (\<exists>a \<in> set g. \<exists>b \<in> set g. disagree canon a b)"
proof (induction g)
  case Nil
  then show ?case by simp
next
  case (Cons x xs)
  show ?case
  proof
    assume "isConflict canon (x # xs)"
    then consider (here) "\<exists>y \<in> set xs. disagree canon x y" | (later) "isConflict canon xs"
      by (auto simp: list_ex_iff)
    then show "\<exists>a \<in> set (x # xs). \<exists>b \<in> set (x # xs). disagree canon a b"
    proof cases
      case here
      then show ?thesis by auto
    next
      case later
      with Cons.IH show ?thesis by auto
    qed
  next
    assume "\<exists>a \<in> set (x # xs). \<exists>b \<in> set (x # xs). disagree canon a b"
    then obtain a b where ab: "a \<in> set (x # xs)" "b \<in> set (x # xs)" "disagree canon a b"
      by blast
    show "isConflict canon (x # xs)"
    proof (cases "a = x")
      case True
      with ab disagree_irrefl [of canon x] have "b \<in> set xs"
        by auto
      with True ab(3) show ?thesis
        by (auto simp: list_ex_iff)
    next
      case ax: False
      show ?thesis
      proof (cases "b = x")
        case True
        with ab(3) have "disagree canon x a"
          by (auto intro: disagree_sym)
        moreover from ax ab(1) have "a \<in> set xs"
          by simp
        ultimately show ?thesis
          by (auto simp: list_ex_iff)
      next
        case False
        with ax ab have "\<exists>a \<in> set xs. \<exists>b \<in> set xs. disagree canon a b"
          by auto
        with Cons.IH show ?thesis
          by simp
      qed
    qed
  qed
qed

lemma disagree_two_readings:
  "(\<exists>a \<in> set g. \<exists>b \<in> set g. disagree canon a b)
     \<longleftrightarrow> (\<exists>a \<in> set g. \<exists>b \<in> set g. source a \<noteq> source b)
          \<and> (\<exists>a \<in> set g. \<exists>b \<in> set g. canon (detail a) \<noteq> canon (detail b))"
proof
  assume "\<exists>a \<in> set g. \<exists>b \<in> set g. disagree canon a b"
  then show "(\<exists>a \<in> set g. \<exists>b \<in> set g. source a \<noteq> source b)
          \<and> (\<exists>a \<in> set g. \<exists>b \<in> set g. canon (detail a) \<noteq> canon (detail b))"
    by (auto simp: disagree_def)
next
  assume r: "(\<exists>a \<in> set g. \<exists>b \<in> set g. source a \<noteq> source b)
          \<and> (\<exists>a \<in> set g. \<exists>b \<in> set g. canon (detail a) \<noteq> canon (detail b))"
  then obtain x y where xy: "x \<in> set g" "y \<in> set g" "canon (detail x) \<noteq> canon (detail y)"
    by blast
  from r obtain p q where pq: "p \<in> set g" "q \<in> set g" "source p \<noteq> source q"
    by blast
  show "\<exists>a \<in> set g. \<exists>b \<in> set g. disagree canon a b"
  proof (cases "source x = source y")
    case False
    with xy show ?thesis
      by (auto simp: disagree_def)
  next
    case True
    from pq obtain z where z: "z \<in> set g" "source z \<noteq> source x"
      by (cases "source p = source x") auto
    show ?thesis
    proof (cases "canon (detail z) = canon (detail x)")
      case same: True
      with xy(3) have "canon (detail z) \<noteq> canon (detail y)"
        by simp
      with z True have "disagree canon z y"
        by (simp add: disagree_def)
      with z(1) xy(2) show ?thesis
        by blast
    next
      case False
      with z have "disagree canon z x"
        by (simp add: disagree_def)
      with z(1) xy(1) show ?thesis
        by blast
    qed
  qed
qed

lemma groupByTopic_set:
  "g \<in> set (groupByTopic ms) \<Longrightarrow> x \<in> set g \<Longrightarrow> set g = {m \<in> set ms. topic m = topic x}"
proof (induction ms arbitrary: g x rule: groupByTopic.induct)
  case 1
  then show ?case by simp
next
  case (2 m ms)
  from "2.prems"(1) consider
      (head) "g = m # filter (\<lambda>x. topic x = topic m) ms"
    | (rest) "g \<in> set (groupByTopic (filter (\<lambda>x. topic x \<noteq> topic m) ms))"
    by auto
  then show ?case
  proof cases
    case head
    then have sg: "set g = insert m {y \<in> set ms. topic y = topic m}"
      by simp
    with "2.prems"(2) have "topic x = topic m"
      by auto
    then have "{y \<in> set (m # ms). topic y = topic x} = insert m {y \<in> set ms. topic y = topic m}"
      by auto
    with sg show ?thesis
      by simp
  next
    case rest
    from "2.IH" [OF rest "2.prems"(2)]
    have s: "set g = {y \<in> set (filter (\<lambda>x. topic x \<noteq> topic m) ms). topic y = topic x}" .
    with "2.prems"(2) have ne: "topic x \<noteq> topic m"
      by auto
    have "{y \<in> set (filter (\<lambda>x. topic x \<noteq> topic m) ms). topic y = topic x}
        = {y \<in> set (m # ms). topic y = topic x}"
      using ne by auto
    with s show ?thesis
      by simp
  qed
qed

lemma groupByTopic_covers: "m \<in> set ms \<Longrightarrow> \<exists>g \<in> set (groupByTopic ms). m \<in> set g"
proof (induction ms arbitrary: m rule: groupByTopic.induct)
  case 1
  then show ?case by simp
next
  case (2 y ms)
  show ?case
  proof (cases "topic m = topic y")
    case True
    with "2.prems" show ?thesis
      by auto
  next
    case False
    with "2.prems" have "m \<in> set (filter (\<lambda>x. topic x \<noteq> topic y) ms)"
      by auto
    then have "\<exists>g \<in> set (groupByTopic (filter (\<lambda>x. topic x \<noteq> topic y) ms)). m \<in> set g"
      by (rule "2.IH")
    then show ?thesis
      by auto
  qed
qed

lemma detectConflicts_iff:
  "g \<in> set (detectConflicts canon items) \<longleftrightarrow>
     g \<in> set (groupByTopic (currentVersions items))
     \<and> (\<exists>a \<in> set g. \<exists>b \<in> set g. source a \<noteq> source b \<and> canon (detail a) \<noteq> canon (detail b))"
  by (simp add: detectConflicts_def isConflict_iff disagree_def)

text \<open>
  Claim C2. A group of current records of one topic is reported by \<open>detectConflicts\<close>
  if and only if two of its records come from distinct sources and have details that
  differ after normalization, which is the same as: its records come from at least two
  sources and their normalized details are not all the same. A group whose records all
  have the same detail is not reported, however many sources it has. The groups are the
  classes of records of the same topic, and every record is in one.
\<close>

theorem detectConflicts_reports_disagreement:
  "(g \<in> set (detectConflicts canon items) \<longleftrightarrow>
      g \<in> set (groupByTopic (currentVersions items))
      \<and> (\<exists>a \<in> set g. \<exists>b \<in> set g. source a \<noteq> source b \<and> canon (detail a) \<noteq> canon (detail b)))
   \<and> ((\<exists>a \<in> set g. \<exists>b \<in> set g. source a \<noteq> source b \<and> canon (detail a) \<noteq> canon (detail b)) \<longleftrightarrow>
        (\<exists>a \<in> set g. \<exists>b \<in> set g. source a \<noteq> source b)
        \<and> (\<exists>a \<in> set g. \<exists>b \<in> set g. canon (detail a) \<noteq> canon (detail b)))
   \<and> ((\<forall>a \<in> set g. \<forall>b \<in> set g. detail a = detail b) \<longrightarrow> g \<notin> set (detectConflicts canon items))
   \<and> (h \<in> set (groupByTopic ms) \<and> x \<in> set h \<longrightarrow> set h = {m \<in> set ms. topic m = topic x})
   \<and> (m \<in> set ms \<longrightarrow> (\<exists>h \<in> set (groupByTopic ms). m \<in> set h))"
proof (intro conjI)
  show "g \<in> set (detectConflicts canon items) \<longleftrightarrow>
      g \<in> set (groupByTopic (currentVersions items))
      \<and> (\<exists>a \<in> set g. \<exists>b \<in> set g. source a \<noteq> source b \<and> canon (detail a) \<noteq> canon (detail b))"
    by (rule detectConflicts_iff)
  show "(\<exists>a \<in> set g. \<exists>b \<in> set g. source a \<noteq> source b \<and> canon (detail a) \<noteq> canon (detail b)) \<longleftrightarrow>
        (\<exists>a \<in> set g. \<exists>b \<in> set g. source a \<noteq> source b)
        \<and> (\<exists>a \<in> set g. \<exists>b \<in> set g. canon (detail a) \<noteq> canon (detail b))"
    by (rule disagree_two_readings [of g canon, unfolded disagree_def])
  show "(\<forall>a \<in> set g. \<forall>b \<in> set g. detail a = detail b) \<longrightarrow> g \<notin> set (detectConflicts canon items)"
  proof
    assume same: "\<forall>a \<in> set g. \<forall>b \<in> set g. detail a = detail b"
    show "g \<notin> set (detectConflicts canon items)"
    proof
      assume "g \<in> set (detectConflicts canon items)"
      then obtain a b where a: "a \<in> set g" and b: "b \<in> set g"
        and ne: "canon (detail a) \<noteq> canon (detail b)"
        unfolding detectConflicts_iff by blast
      from same a b have "detail a = detail b"
        by blast
      with ne show False
        by simp
    qed
  qed
  show "h \<in> set (groupByTopic ms) \<and> x \<in> set h \<longrightarrow> set h = {m \<in> set ms. topic m = topic x}"
  proof
    assume "h \<in> set (groupByTopic ms) \<and> x \<in> set h"
    then have "h \<in> set (groupByTopic ms)" and "x \<in> set h"
      by simp_all
    then show "set h = {m \<in> set ms. topic m = topic x}"
      by (rule groupByTopic_set)
  qed
  show "m \<in> set ms \<longrightarrow> (\<exists>h \<in> set (groupByTopic ms). m \<in> set h)"
    by (intro impI groupByTopic_covers)
qed

lemma example_current:
  "currentVersions [recordOfA, agreedOfA, recordOfB, agreedOfB]
     = [recordOfA, agreedOfA, recordOfB, agreedOfB]"
  by (simp add: currentVersions_def recordOfA_def recordOfB_def agreedOfA_def agreedOfB_def
      exampleRecord_def)

lemma example_topics:
  "topic recordOfA = ''auth''" "topic recordOfB = ''auth''"
  "topic agreedOfA = ''relay''" "topic agreedOfB = ''relay''"
  by (simp_all add: recordOfA_def recordOfB_def agreedOfA_def agreedOfB_def exampleRecord_def)

lemma example_groups:
  "groupByTopic (currentVersions [recordOfA, agreedOfA, recordOfB, agreedOfB])
     = [[recordOfA, recordOfB], [agreedOfA, agreedOfB]]"
  by (simp add: example_current example_topics)

theorem detectConflicts_reports_disagreement_witness:
  "[recordOfA, recordOfB] \<in> set (groupByTopic (currentVersions [recordOfA, agreedOfA, recordOfB, agreedOfB]))
   \<and> source recordOfA \<noteq> source recordOfB \<and> trim (detail recordOfA) \<noteq> trim (detail recordOfB)
   \<and> [recordOfA, recordOfB] \<in> set (detectConflicts trim [recordOfA, agreedOfA, recordOfB, agreedOfB])
   \<and> [agreedOfA, agreedOfB] \<in> set (groupByTopic (currentVersions [recordOfA, agreedOfA, recordOfB, agreedOfB]))
   \<and> source agreedOfA \<noteq> source agreedOfB \<and> detail agreedOfA = detail agreedOfB
   \<and> [agreedOfA, agreedOfB] \<notin> set (detectConflicts trim [recordOfA, agreedOfA, recordOfB, agreedOfB])
   \<and> set [agreedOfA, agreedOfB]
       = {m \<in> set (currentVersions [recordOfA, agreedOfA, recordOfB, agreedOfB]). topic m = topic agreedOfB}
   \<and> (\<exists>h \<in> set (groupByTopic (currentVersions [recordOfA, agreedOfA, recordOfB, agreedOfB])).
        recordOfB \<in> set h)"
proof -
  let ?items = "[recordOfA, agreedOfA, recordOfB, agreedOfB]"
  have g1: "[recordOfA, recordOfB] \<in> set (groupByTopic (currentVersions ?items))"
    and g2: "[agreedOfA, agreedOfB] \<in> set (groupByTopic (currentVersions ?items))"
    by (simp_all only: example_groups list.set insert_iff simp_thms)
  have s1: "source recordOfA \<noteq> source recordOfB"
    and s2: "source agreedOfA \<noteq> source agreedOfB"
    and d2: "detail agreedOfA = detail agreedOfB"
    by (simp_all add: recordOfA_def recordOfB_def agreedOfA_def agreedOfB_def exampleRecord_def)
  have d1: "trim (detail recordOfA) \<noteq> trim (detail recordOfB)"
    by (simp add: recordOfA_def recordOfB_def exampleRecord_def trim_def isWhiteSpace_def)
  note t1 = detectConflicts_reports_disagreement [of "[recordOfA, recordOfB]" trim ?items]
  note t2 = detectConflicts_reports_disagreement [of "[agreedOfA, agreedOfB]" trim ?items]
  from s1 d1 have "\<exists>a \<in> set [recordOfA, recordOfB]. \<exists>b \<in> set [recordOfA, recordOfB].
      source a \<noteq> source b \<and> trim (detail a) \<noteq> trim (detail b)"
    by auto
  with g1 have c1: "[recordOfA, recordOfB] \<in> set (detectConflicts trim ?items)"
    by (intro t1 [THEN conjunct1, THEN iffD2] conjI)
  from d2 have "\<forall>a \<in> set [agreedOfA, agreedOfB]. \<forall>b \<in> set [agreedOfA, agreedOfB]. detail a = detail b"
    by auto
  then have c2: "[agreedOfA, agreedOfB] \<notin> set (detectConflicts trim ?items)"
    by (rule t2 [THEN conjunct2, THEN conjunct2, THEN conjunct1, THEN mp])
  note t3 = detectConflicts_reports_disagreement [of "[agreedOfA, agreedOfB]" trim ?items
      "[agreedOfA, agreedOfB]" "currentVersions ?items" agreedOfB recordOfB]
  have "agreedOfB \<in> set [agreedOfA, agreedOfB]"
    by simp
  with g2 have c3: "set [agreedOfA, agreedOfB]
      = {m \<in> set (currentVersions ?items). topic m = topic agreedOfB}"
    by (intro t3 [THEN conjunct2, THEN conjunct2, THEN conjunct2, THEN conjunct1, THEN mp] conjI)
  have "recordOfB \<in> set (currentVersions ?items)"
    by (simp add: example_current)
  then have c4: "\<exists>h \<in> set (groupByTopic (currentVersions ?items)). recordOfB \<in> set h"
    by (rule t3 [THEN conjunct2, THEN conjunct2, THEN conjunct2, THEN conjunct2, THEN mp])
  from g1 s1 d1 c1 g2 s2 d2 c2 c3 c4 show ?thesis
    by (intro conjI)
qed

end
